theory Spec2Isabelle
  imports Complex_Main "HOL-Library.Word"
begin

unbundle bit_operations_syntax

section \<open>Tegra PMC power gating and MC hot reset: shallow embedding\<close>

text \<open>
  The embedding follows drivers/soc/tegra/pmc.c and the Tegra114 memory-controller
  code that comes with it. The driver serves Tegra20, Tegra30, Tegra114 and Tegra124,
  all 32-bit ARM: \<open>u32\<close>, \<open>unsigned int\<close> and \<open>unsigned long\<close> are 32-bit words,
  a C \<open>int\<close> that only carries a return code is an \<open>int\<close>.

  Everything the driver does to the outside (register accesses, locks, delays, calls into
  the clock, reset, regulator and memory-controller frameworks) is logged as an event in
  a trace, in program order. What the outside answers (the value of a register read, the
  return code of a call) is given by an environment: a record of functions from the
  history so far and the arguments of the call to the answer. Theorems quantify over
  the environment, so they hold for every behaviour of the hardware and of the
  frameworks.
\<close>

subsection \<open>Values, events and the environment\<close>

type_synonym u32 = "32 word"

text \<open>A C pointer to an opaque kernel object: NULL, an \<open>ERR_PTR\<close>-encoded error, or an object.\<close>

datatype ptr = NULL | ERR_PTR int | PTR nat

definition IS_ERR :: "ptr \<Rightarrow> bool" where
  "IS_ERR p = (case p of ERR_PTR e \<Rightarrow> True | _ \<Rightarrow> False)"

definition PTR_ERR :: "ptr \<Rightarrow> int" where
  "PTR_ERR p = (case p of ERR_PTR e \<Rightarrow> e | NULL \<Rightarrow> 0 | PTR a \<Rightarrow> int a)"

text \<open>The two register windows, each with its own mutex.\<close>

datatype bank = PMC | MC

text \<open>External functions, by return type.\<close>

datatype int_callee =
    clk_prepare_enable | reset_control_assert | reset_control_deassert
  | regulator_enable | regulator_disable | tegra_mc_flush | tegra_mc_flush_done

datatype void_callee = clk_disable_unprepare | clk_put

datatype ptr_callee = of_find_device_by_node | devm_regulator_get_optional | clk_get_sys

datatype event =
    RegRead bank u32 u32          \<comment> \<open>window, offset, value read\<close>
  | RegWrite bank u32 u32         \<comment> \<open>window, value, offset (the argument order of writel)\<close>
  | MutexLock bank
  | MutexUnlock bank
  | Udelay nat
  | UsleepRange nat nat
  | IntCall int_callee ptr int    \<comment> \<open>callee, argument, return code\<close>
  | VoidCall void_callee ptr
  | PtrCall ptr_callee ptr ptr    \<comment> \<open>callee, argument, pointer returned\<close>
  | ClkGetRate ptr u32            \<comment> \<open>clock, rate returned\<close>

record env =
  reg_value :: "event list \<Rightarrow> bank \<Rightarrow> u32 \<Rightarrow> u32"
  int_result :: "event list \<Rightarrow> int_callee \<Rightarrow> ptr \<Rightarrow> int"
  ptr_result :: "event list \<Rightarrow> ptr_callee \<Rightarrow> ptr \<Rightarrow> ptr"
  clk_rate :: "event list \<Rightarrow> ptr \<Rightarrow> u32"
  sleep_len :: "event list \<Rightarrow> nat"

text \<open>The state threaded through the driver: the trace and the time elapsed, in microseconds.\<close>

record world =
  trace :: "event list"
  now :: nat

definition emit :: "event \<Rightarrow> world \<Rightarrow> world" where
  "emit e w = w\<lparr>trace := trace w @ [e]\<rparr>"

definition readl :: "env \<Rightarrow> bank \<Rightarrow> u32 \<Rightarrow> world \<Rightarrow> u32 \<times> world" where
  "readl E b offset w =
     (let v = reg_value E (trace w) b offset in (v, emit (RegRead b offset v) w))"

definition writel :: "bank \<Rightarrow> u32 \<Rightarrow> u32 \<Rightarrow> world \<Rightarrow> world" where
  "writel b v offset w = emit (RegWrite b v offset) w"

definition tegra_pmc_readl :: "env \<Rightarrow> u32 \<Rightarrow> world \<Rightarrow> u32 \<times> world" where
  "tegra_pmc_readl E offset w = readl E PMC offset w"

definition tegra_pmc_writel :: "u32 \<Rightarrow> u32 \<Rightarrow> world \<Rightarrow> world" where
  "tegra_pmc_writel v offset w = writel PMC v offset w"

text \<open>
  Modelled from the spec: \<open>mc_readl\<close> and \<open>mc_writel\<close> of drivers/memory/tegra/mc.h, which is
  not under src/: the 32-bit read and write at a byte offset into the MC register window.
\<close>

definition mc_readl :: "env \<Rightarrow> u32 \<Rightarrow> world \<Rightarrow> u32 \<times> world" where
  "mc_readl E offset w = readl E MC offset w"

definition mc_writel :: "u32 \<Rightarrow> u32 \<Rightarrow> world \<Rightarrow> world" where
  "mc_writel v offset w = writel MC v offset w"

definition mutex_lock :: "bank \<Rightarrow> world \<Rightarrow> world" where
  "mutex_lock b w = emit (MutexLock b) w"

definition mutex_unlock :: "bank \<Rightarrow> world \<Rightarrow> world" where
  "mutex_unlock b w = emit (MutexUnlock b) w"

text \<open>
  Modelled from the spec: \<open>udelay\<close> and \<open>usleep_range\<close> of linux/delay.h, which is not under
  src/: a busy wait of n microseconds, and a sleep of between min and max microseconds
  (the spec's "fixed interval (10-20 us)"); how long a sleep really takes inside that
  range is the environment's choice.
\<close>

definition udelay :: "nat \<Rightarrow> world \<Rightarrow> world" where
  "udelay n w = (emit (Udelay n) w)\<lparr>now := now w + n\<rparr>"

definition usleep_range :: "env \<Rightarrow> nat \<Rightarrow> nat \<Rightarrow> world \<Rightarrow> world" where
  "usleep_range E lo hi w =
     (emit (UsleepRange lo hi) w)\<lparr>now := now w + max lo (min hi (sleep_len E (trace w)))\<rparr>"

text \<open>
  Modelled from the spec: \<open>jiffies\<close>, \<open>msecs_to_jiffies\<close>, \<open>time_before\<close> and \<open>time_after\<close> of
  linux/jiffies.h, which is not under src/: the kernel's tick counter, read here at the
  resolution of a microsecond, so that "a bounded timeout (50 ms)" is 50000 ticks.
\<close>

definition jiffies :: "world \<Rightarrow> nat" where
  "jiffies w = now w"

definition msecs_to_jiffies :: "nat \<Rightarrow> nat" where
  "msecs_to_jiffies m = 1000 * m"

definition time_before :: "nat \<Rightarrow> nat \<Rightarrow> bool" where
  "time_before a b = (a < b)"

definition time_after :: "nat \<Rightarrow> nat \<Rightarrow> bool" where
  "time_after a b = (b < a)"

definition call_int :: "env \<Rightarrow> int_callee \<Rightarrow> ptr \<Rightarrow> world \<Rightarrow> int \<times> world" where
  "call_int E f p w = (let r = int_result E (trace w) f p in (r, emit (IntCall f p r) w))"

definition call_void :: "void_callee \<Rightarrow> ptr \<Rightarrow> world \<Rightarrow> world" where
  "call_void f p w = emit (VoidCall f p) w"

definition call_ptr :: "env \<Rightarrow> ptr_callee \<Rightarrow> ptr \<Rightarrow> world \<Rightarrow> ptr \<times> world" where
  "call_ptr E f p w = (let r = ptr_result E (trace w) f p in (r, emit (PtrCall f p r) w))"

definition clk_get_rate :: "env \<Rightarrow> ptr \<Rightarrow> world \<Rightarrow> u32 \<times> world" where
  "clk_get_rate E c w = (let r = clk_rate E (trace w) c in (r, emit (ClkGetRate c r) w))"

subsection \<open>Constants\<close>

text \<open>
  Modelled from the spec: the errno values of include/uapi/asm-generic/errno*.h, which
  is not under src/. The spec's InvalidArgument is \<open>EINVAL\<close>, its Timeout is \<open>ETIMEDOUT\<close>, its
  Unsupported is \<open>EOPNOTSUPP\<close> (or the kernel-internal \<open>ENOTSUPP\<close>).
\<close>

definition EINVAL :: int where "EINVAL = 22"
definition ETIMEDOUT :: int where "ETIMEDOUT = 110"
definition EOPNOTSUPP :: int where "EOPNOTSUPP = 95"
definition ENOTSUPP :: int where "ENOTSUPP = 524"

datatype error_kind = InvalidArgument | Timeout | Unsupported | OtherError

definition error_kind_of :: "int \<Rightarrow> error_kind" where
  "error_kind_of r =
     (if r = - EINVAL then InvalidArgument
      else if r = - ETIMEDOUT then Timeout
      else if r = - EOPNOTSUPP \<or> r = - ENOTSUPP then Unsupported
      else OtherError)"

text \<open>Register offsets and fields, from the head of pmc.c.\<close>

definition DPD_SAMPLE :: u32 where "DPD_SAMPLE = 0x020"
definition DPD_SAMPLE_ENABLE :: u32 where "DPD_SAMPLE_ENABLE = push_bit 0 1"
definition DPD_SAMPLE_DISABLE :: u32 where "DPD_SAMPLE_DISABLE = push_bit 0 0"
definition PWRGATE_TOGGLE :: u32 where "PWRGATE_TOGGLE = 0x30"
definition PWRGATE_TOGGLE_START :: u32 where "PWRGATE_TOGGLE_START = push_bit 8 1"
definition REMOVE_CLAMPING :: u32 where "REMOVE_CLAMPING = 0x34"
definition PWRGATE_STATUS :: u32 where "PWRGATE_STATUS = 0x38"
definition IO_DPD_REQ :: u32 where "IO_DPD_REQ = 0x1b8"
definition IO_DPD_REQ_CODE_OFF :: u32 where "IO_DPD_REQ_CODE_OFF = push_bit 30 1"
definition IO_DPD_REQ_CODE_ON :: u32 where "IO_DPD_REQ_CODE_ON = push_bit 30 2"
definition IO_DPD_REQ_CODE_MASK :: u32 where "IO_DPD_REQ_CODE_MASK = push_bit 30 3"
definition IO_DPD_STATUS :: u32 where "IO_DPD_STATUS = 0x1bc"
definition IO_DPD2_REQ :: u32 where "IO_DPD2_REQ = 0x1c0"
definition IO_DPD2_STATUS :: u32 where "IO_DPD2_STATUS = 0x1c4"
definition SEL_DPD_TIM :: u32 where "SEL_DPD_TIM = 0x1c8"
definition GPU_RG_CNTRL :: u32 where "GPU_RG_CNTRL = 0x2d4"

definition MAX_CLK_NUM :: nat where "MAX_CLK_NUM = 5"
definition MAX_RESET_NUM :: nat where "MAX_RESET_NUM = 5"
definition MAX_SWGROUP_NUM :: nat where "MAX_SWGROUP_NUM = 5"

text \<open>
  Modelled from the spec: the partition identifiers \<open>TEGRA_POWERGATE_*\<close> of
  include/soc/tegra/pmc.h, which is not under src/. The spec names them (VDEC_ID, PCIE_ID,
  the 3D domain, the always-on set of CPU cores and rails, C0NC and IRAM) without their
  numbers; the numbers are those of the header.
\<close>

definition TEGRA_POWERGATE_CPU :: int where "TEGRA_POWERGATE_CPU = 0"
definition TEGRA_POWERGATE_3D :: int where "TEGRA_POWERGATE_3D = 1"
definition TEGRA_POWERGATE_PCIE :: int where "TEGRA_POWERGATE_PCIE = 3"
definition TEGRA_POWERGATE_VDEC :: int where "TEGRA_POWERGATE_VDEC = 4"
definition TEGRA_POWERGATE_CPU1 :: int where "TEGRA_POWERGATE_CPU1 = 9"
definition TEGRA_POWERGATE_CPU2 :: int where "TEGRA_POWERGATE_CPU2 = 10"
definition TEGRA_POWERGATE_CPU3 :: int where "TEGRA_POWERGATE_CPU3 = 11"
definition TEGRA_POWERGATE_CPU0 :: int where "TEGRA_POWERGATE_CPU0 = 14"
definition TEGRA_POWERGATE_C0NC :: int where "TEGRA_POWERGATE_C0NC = 15"
definition TEGRA_POWERGATE_IRAM :: int where "TEGRA_POWERGATE_IRAM = 24"

text \<open>
  Modelled from the spec: the macro \<open>BIT\<close> of linux/bitops.h, which is not under src/: the
  word with the single bit n set. A shift by 32 or more is undefined in C; the theorems
  below are about bit numbers under 32.
\<close>

definition BIT :: "nat \<Rightarrow> u32" where
  "BIT n = push_bit n 1"

subsection \<open>Data model\<close>

record tegra_pmc_soc =
  num_powergates :: nat
  has_tsense_reset :: bool
  has_gpu_clamps :: bool
  is_legacy_powergate :: bool

text \<open>
  \<open>struct tegra_powergate\<close>. The three arrays have \<open>MAX_CLK_NUM\<close>, \<open>MAX_RESET_NUM\<close> and
  \<open>MAX_SWGROUP_NUM\<close> entries, filled from index 0, the unused ones NULL.
\<close>

record tegra_powergate =
  pg_id :: u32
  of_node :: ptr
  clk :: "ptr list"
  reset :: "ptr list"
  swgroup :: "ptr list"
  is_vdd :: bool
  vdd :: ptr

subsection \<open>Removing the clamps\<close>

text \<open>
  \<open>tegra_powergate_remove_clamping(int id)\<close>; \<open>soc\<close> is \<open>pmc->soc\<close>, \<open>None\<close> when it is NULL.
\<close>

definition tegra_powergate_remove_clamping ::
  "tegra_pmc_soc option \<Rightarrow> int \<Rightarrow> world \<Rightarrow> int \<times> world" where
  "tegra_powergate_remove_clamping soc ident w =
     (case soc of
        None \<Rightarrow> (- EINVAL, w)
      | Some s \<Rightarrow>
          if ident < 0 \<or> ident \<ge> int (num_powergates s) then (- EINVAL, w)
          else if ident = TEGRA_POWERGATE_3D \<and> has_gpu_clamps s
            then (0, tegra_pmc_writel 0 GPU_RG_CNTRL w)
          else
            let mask = (if ident = TEGRA_POWERGATE_VDEC then push_bit (nat TEGRA_POWERGATE_PCIE) 1
                        else if ident = TEGRA_POWERGATE_PCIE then push_bit (nat TEGRA_POWERGATE_VDEC) 1
                        else push_bit (nat ident) 1)
            in (0, tegra_pmc_writel mask REMOVE_CLAMPING w))"

subsection \<open>I/O rail deep power down\<close>

text \<open>C's \<open>%\<close> on \<open>int\<close>: the remainder of the division that truncates towards zero.\<close>

definition c_rem :: "int \<Rightarrow> int \<Rightarrow> int" where
  "c_rem a b = a - b * (sgn a * sgn b * (\<bar>a\<bar> div \<bar>b\<bar>))"

text \<open>
  Modelled from the spec: the macro \<open>DIV_ROUND_UP\<close> of linux/kernel.h, which is not under
  src/: the division that rounds up ("round up twice", \<open>ceil(200 / ceil(1e9 / R))\<close>), on
  \<open>unsigned long\<close>. A division by zero traps: \<open>None\<close>.
\<close>

definition DIV_ROUND_UP :: "u32 \<Rightarrow> u32 \<Rightarrow> u32 option" where
  "DIV_ROUND_UP n d =
     (if d = 0 then None else Some (word_of_nat ((unat n + unat d - 1) div unat d)))"

text \<open>
  \<open>tegra_io_rail_prepare(id, &request, &status, &bit)\<close>: the result is the return code
  with the three out-parameters (\<open>request\<close>, \<open>status\<close>, \<open>bit\<close>); \<open>request\<close> and \<open>status\<close> are
  not assigned on the first error path and read 0 here. \<open>None\<close> is a trap.
\<close>

definition tegra_io_rail_prepare ::
  "env \<Rightarrow> int \<Rightarrow> world \<Rightarrow> (int \<times> u32 \<times> u32 \<times> u32 \<times> world) option" where
  "tegra_io_rail_prepare E ident w =
     (let bitno = (word_of_int (c_rem ident 32) :: u32) in
      if ident > 63 \<or> bitno = 30 \<or> bitno = 31 then Some (- EINVAL, 0, 0, bitno, w)
      else
        let (status, request) =
              (if ident < 32 then (IO_DPD_STATUS, IO_DPD_REQ) else (IO_DPD2_STATUS, IO_DPD2_REQ));
            (c, w1) = call_ptr E clk_get_sys NULL w
        in if IS_ERR c then Some (PTR_ERR c, request, status, bitno, w1)
           else
             let (rate, w2) = clk_get_rate E c w1;
                 w3 = call_void clk_put c w2;
                 w4 = tegra_pmc_writel DPD_SAMPLE_ENABLE DPD_SAMPLE w3
             in case DIV_ROUND_UP 1000000000 rate of
                  None \<Rightarrow> None
                | Some v \<Rightarrow>
                    (case DIV_ROUND_UP 200 v of
                       None \<Rightarrow> None
                     | Some v' \<Rightarrow> Some (0, request, status, bitno, tegra_pmc_writel v' SEL_DPD_TIM w4)))"

function tegra_io_rail_poll_loop ::
  "env \<Rightarrow> u32 \<Rightarrow> u32 \<Rightarrow> u32 \<Rightarrow> nat \<Rightarrow> world \<Rightarrow> int \<times> world" where
  "tegra_io_rail_poll_loop E offset msk val timeout w =
     (if time_after timeout (jiffies w) then
        (let (v, w1) = tegra_pmc_readl E offset w in
         if v AND msk = val then (0, w1)
         else tegra_io_rail_poll_loop E offset msk val timeout (usleep_range E 250 1000 w1))
      else (- ETIMEDOUT, w))"
  by pat_completeness auto
termination
  by (relation "measure (\<lambda>(E, offset, msk, val, timeout, w). timeout - now w)")
     (auto simp: time_after_def jiffies_def tegra_pmc_readl_def readl_def usleep_range_def
                 emit_def Let_def)

declare tegra_io_rail_poll_loop.simps [simp del]

definition tegra_io_rail_poll ::
  "env \<Rightarrow> u32 \<Rightarrow> u32 \<Rightarrow> u32 \<Rightarrow> nat \<Rightarrow> world \<Rightarrow> int \<times> world" where
  "tegra_io_rail_poll E offset msk val timeout w =
     tegra_io_rail_poll_loop E offset msk val (jiffies w + msecs_to_jiffies timeout) w"

definition tegra_io_rail_unprepare :: "world \<Rightarrow> world" where
  "tegra_io_rail_unprepare w = tegra_pmc_writel DPD_SAMPLE_DISABLE DPD_SAMPLE w"

text \<open>
  In both entry points the shift \<open>1 << bit\<close> is undefined for a bit number of 32 or more
  (which a negative id gives): \<open>None\<close>.
\<close>

definition tegra_io_rail_power_on :: "env \<Rightarrow> int \<Rightarrow> world \<Rightarrow> (int \<times> world) option" where
  "tegra_io_rail_power_on E ident w =
     (case tegra_io_rail_prepare E ident w of
        None \<Rightarrow> None
      | Some (err, request, status, bitno, w1) \<Rightarrow>
          if err < 0 then Some (err, w1)
          else if 32 \<le> unat bitno then None
          else
            let msk = (push_bit (unat bitno) 1 :: u32);
                (v, w2) = tegra_pmc_readl E request w1;
                v = v OR msk;
                v = v AND NOT IO_DPD_REQ_CODE_MASK;
                v = v OR IO_DPD_REQ_CODE_OFF;
                w3 = tegra_pmc_writel v request w2;
                (err, w4) = tegra_io_rail_poll E status msk 0 250 w3
            in if err < 0 then Some (err, w4)
               else Some (0, tegra_io_rail_unprepare w4))"

definition tegra_io_rail_power_off :: "env \<Rightarrow> int \<Rightarrow> world \<Rightarrow> (int \<times> world) option" where
  "tegra_io_rail_power_off E ident w =
     (case tegra_io_rail_prepare E ident w of
        None \<Rightarrow> None
      | Some (err, request, status, bitno, w1) \<Rightarrow>
          if err < 0 then Some (err, w1)
          else if 32 \<le> unat bitno then None
          else
            let msk = (push_bit (unat bitno) 1 :: u32);
                (v, w2) = tegra_pmc_readl E request w1;
                v = v OR msk;
                v = v AND NOT IO_DPD_REQ_CODE_MASK;
                v = v OR IO_DPD_REQ_CODE_ON;
                w3 = tegra_pmc_writel v request w2;
                (err, w4) = tegra_io_rail_poll E status msk msk 250 w3
            in if err < 0 then Some (err, w4)
               else Some (0, tegra_io_rail_unprepare w4))"

subsection \<open>The power-gate primitive\<close>


text \<open>
  The polling loop of \<open>tegra_pmc_powergate_set\<close>; the result is \<open>err\<close>, which the source
  initialises to \<open>-ETIMEDOUT\<close> and clears when the status bit has the wanted value.
\<close>

function powergate_set_poll :: "env \<Rightarrow> u32 \<Rightarrow> u32 \<Rightarrow> nat \<Rightarrow> world \<Rightarrow> int \<times> world" where
  "powergate_set_poll E ident msk timeout w =
     (if time_before (jiffies w) timeout then
        (let (status, w1) = tegra_pmc_readl E PWRGATE_STATUS w in
         if status AND BIT (unat ident) = msk then (0, w1)
         else powergate_set_poll E ident msk timeout (usleep_range E 10 20 w1))
      else (- ETIMEDOUT, w))"
  by pat_completeness auto
termination
  by (relation "measure (\<lambda>(E, ident, msk, timeout, w). timeout - now w)")
     (auto simp: time_before_def jiffies_def tegra_pmc_readl_def readl_def usleep_range_def
                 emit_def Let_def)

declare powergate_set_poll.simps [simp del]

definition tegra_pmc_powergate_set ::
  "env \<Rightarrow> tegra_powergate \<Rightarrow> bool \<Rightarrow> world \<Rightarrow> int \<times> world" where
  "tegra_pmc_powergate_set E pg new_state w =
     (let msk = (if new_state then BIT (unat (pg_id pg)) else 0);
          w1 = mutex_lock PMC w;
          (status, w2) = tegra_pmc_readl E PWRGATE_STATUS w1;
          state = (status AND BIT (unat (pg_id pg)) \<noteq> 0)
      in if new_state = state then (0, mutex_unlock PMC w2)
         else
           let w3 = tegra_pmc_writel (PWRGATE_TOGGLE_START OR pg_id pg) PWRGATE_TOGGLE w2;
               timeout = jiffies w3 + msecs_to_jiffies 50;
               (err, w4) = powergate_set_poll E (pg_id pg) msk timeout w3
           in (err, mutex_unlock PMC w4))"

subsection \<open>Resource bundles\<close>

text \<open>
  Every bundle loop of the source is \<open>for (i = 0; i < MAX; i++) { if (!a[i]) break; ... }\<close>:
  it visits the entries before the first NULL, among the first MAX, in index order.
\<close>

definition bundle_entries :: "nat \<Rightarrow> ptr list \<Rightarrow> ptr list" where
  "bundle_entries n a = takeWhile (\<lambda>p. p \<noteq> NULL) (take n a)"

fun clk_disable_all :: "ptr list \<Rightarrow> world \<Rightarrow> world" where
  "clk_disable_all [] w = w"
| "clk_disable_all (c # cs) w = clk_disable_all cs (call_void clk_disable_unprepare c w)"

text \<open>
  The loop of \<open>tegra_pmc_powergate_enable_clocks\<close>. \<open>enabled\<close> holds the clocks enabled so
  far, the latest first: \<open>clk[i-1], ..., clk[0]\<close>, the order in which \<open>while (i--)\<close> at the
  label \<open>out\<close> disables them.
\<close>

fun enable_clocks_loop :: "env \<Rightarrow> ptr list \<Rightarrow> ptr list \<Rightarrow> world \<Rightarrow> int \<times> world" where
  "enable_clocks_loop E enabled [] w = (0, w)"
| "enable_clocks_loop E enabled (c # cs) w =
     (let (err, w1) = call_int E clk_prepare_enable c w in
      if err \<noteq> 0 then (err, clk_disable_all enabled w1)
      else enable_clocks_loop E (c # enabled) cs w1)"

definition tegra_pmc_powergate_enable_clocks ::
  "env \<Rightarrow> tegra_powergate \<Rightarrow> world \<Rightarrow> int \<times> world" where
  "tegra_pmc_powergate_enable_clocks E pg w =
     enable_clocks_loop E [] (bundle_entries MAX_CLK_NUM (clk pg)) w"

definition tegra_pmc_powergate_disable_clocks :: "tegra_powergate \<Rightarrow> world \<Rightarrow> world" where
  "tegra_pmc_powergate_disable_clocks pg w = clk_disable_all (bundle_entries MAX_CLK_NUM (clk pg)) w"

text \<open>
  The loops over swgroups and resets: call \<open>f\<close> on each entry, return the first non-zero
  result at once.
\<close>

fun call_each :: "env \<Rightarrow> int_callee \<Rightarrow> ptr list \<Rightarrow> world \<Rightarrow> int \<times> world" where
  "call_each E f [] w = (0, w)"
| "call_each E f (p # ps) w =
     (let (err, w1) = call_int E f p w in
      if err \<noteq> 0 then (err, w1) else call_each E f ps w1)"

definition tegra_pmc_powergate_mc_flush ::
  "env \<Rightarrow> tegra_powergate \<Rightarrow> world \<Rightarrow> int \<times> world" where
  "tegra_pmc_powergate_mc_flush E pg w =
     call_each E tegra_mc_flush (bundle_entries MAX_SWGROUP_NUM (swgroup pg)) w"

definition tegra_pmc_powergate_mc_flush_done ::
  "env \<Rightarrow> tegra_powergate \<Rightarrow> world \<Rightarrow> int \<times> world" where
  "tegra_pmc_powergate_mc_flush_done E pg w =
     call_each E tegra_mc_flush_done (bundle_entries MAX_SWGROUP_NUM (swgroup pg)) w"

definition tegra_pmc_powergate_reset_assert ::
  "env \<Rightarrow> tegra_powergate \<Rightarrow> world \<Rightarrow> int \<times> world" where
  "tegra_pmc_powergate_reset_assert E pg w =
     call_each E reset_control_assert (bundle_entries MAX_RESET_NUM (reset pg)) w"

definition tegra_pmc_powergate_reset_deassert ::
  "env \<Rightarrow> tegra_powergate \<Rightarrow> world \<Rightarrow> int \<times> world" where
  "tegra_pmc_powergate_reset_deassert E pg w =
     call_each E reset_control_deassert (bundle_entries MAX_RESET_NUM (reset pg)) w"

text \<open>\<open>tegra_powergate_get_regulator\<close> stores the regulator in \<open>powergate->vdd\<close>.\<close>

definition tegra_powergate_get_regulator ::
  "env \<Rightarrow> tegra_powergate \<Rightarrow> world \<Rightarrow> int \<times> tegra_powergate \<times> world" where
  "tegra_powergate_get_regulator E pg w =
     (if \<not> is_vdd pg then (- EINVAL, pg, w)
      else if vdd pg \<noteq> NULL \<and> \<not> IS_ERR (vdd pg) then (0, pg, w)
      else
        let (pdev, w1) = call_ptr E of_find_device_by_node (of_node pg) w in
        if pdev = NULL then (- EINVAL, pg, w1)
        else
          let (r, w2) = call_ptr E devm_regulator_get_optional pdev w1;
              pg' = pg\<lparr>vdd := r\<rparr>
          in if IS_ERR r then (- EINVAL, pg', w2) else (0, pg', w2))"

subsection \<open>The power-domain state machine\<close>

text \<open>
  \<open>tegra_pmc_powergate_power_on\<close>. \<open>soc\<close> is \<open>pmc->soc\<close>, which the function dereferences.
  The result carries the power gate, whose \<open>vdd\<close> the first step may set.
\<close>

definition tegra_pmc_powergate_power_on ::
  "env \<Rightarrow> tegra_pmc_soc \<Rightarrow> tegra_powergate \<Rightarrow> world \<Rightarrow> int \<times> tegra_powergate \<times> world" where
  "tegra_pmc_powergate_power_on E soc pg0 w0 =
     (let (err, pg, w) =
            (if is_vdd pg0 then
               (let (err, pg, w) = tegra_powergate_get_regulator E pg0 w0 in
                if err = 0 then
                  (let (err, w) = call_int E regulator_enable (vdd pg) w in (err, pg, w))
                else (err, pg, w))
             else
               (let (err, w) = tegra_pmc_powergate_set E pg0 True w0 in (err, pg0, w)))
      in if err < 0 then (err, pg, w) else
      let w = udelay 10 w;
          (err, w) =
            (if is_legacy_powergate soc then
               (let (err, w) = tegra_pmc_powergate_reset_assert E pg w in
                if err \<noteq> 0 then (err, w) else (0, udelay 10 w))
             else (0, w))
      in if err \<noteq> 0 then (err, pg, w) else
      let (err, w) =
            (if pg_id pg \<noteq> word_of_int TEGRA_POWERGATE_PCIE then
               (let (err, w) = tegra_pmc_powergate_enable_clocks E pg w in
                if err \<noteq> 0 then (err, w) else (0, udelay 10 w))
             else (0, w))
      in if err \<noteq> 0 then (err, pg, w) else
      let (err, w) = tegra_powergate_remove_clamping (Some soc) (sint (pg_id pg)) w
      in if err \<noteq> 0 then (err, pg, w) else
      let w = udelay 10 w;
          (err, w) = tegra_pmc_powergate_reset_deassert E pg w
      in if err \<noteq> 0 then (err, pg, w) else
      let w = udelay 10 w;
          (err, w) = tegra_pmc_powergate_mc_flush_done E pg w
      in if err \<noteq> 0 then (err, pg, w) else
      let w = udelay 10 w;
          w = (if pg_id pg \<noteq> word_of_int TEGRA_POWERGATE_PCIE
               then tegra_pmc_powergate_disable_clocks pg w else w)
      in (0, pg, w))"

text \<open>The partitions that \<open>tegra_pmc_powergate_power_off\<close> never turns off.\<close>

definition never_turn_off :: "u32 \<Rightarrow> bool" where
  "never_turn_off ident =
     (ident = word_of_int TEGRA_POWERGATE_CPU \<or> ident = word_of_int TEGRA_POWERGATE_CPU1
      \<or> ident = word_of_int TEGRA_POWERGATE_CPU2 \<or> ident = word_of_int TEGRA_POWERGATE_CPU3
      \<or> ident = word_of_int TEGRA_POWERGATE_CPU0 \<or> ident = word_of_int TEGRA_POWERGATE_C0NC
      \<or> ident = word_of_int TEGRA_POWERGATE_IRAM)"

definition tegra_pmc_powergate_power_off ::
  "env \<Rightarrow> tegra_pmc_soc \<Rightarrow> tegra_powergate \<Rightarrow> world \<Rightarrow> int \<times> world" where
  "tegra_pmc_powergate_power_off E soc pg w =
     (if never_turn_off (pg_id pg) then (- EINVAL, w) else
      let (err, w) =
            (if \<not> is_legacy_powergate soc then
               (let (err, w) = tegra_pmc_powergate_enable_clocks E pg w in
                if err \<noteq> 0 then (err, w) else
                let w = udelay 10 w;
                    (err, w) = tegra_pmc_powergate_mc_flush E pg w
                in if err \<noteq> 0 then (err, w) else (0, udelay 10 w))
             else (0, w))
      in if err \<noteq> 0 then (err, w) else
      let (err, w) = tegra_pmc_powergate_reset_assert E pg w
      in if err \<noteq> 0 then (err, w) else
      let w = udelay 10 w;
          w = (if \<not> is_legacy_powergate soc
               then udelay 10 (tegra_pmc_powergate_disable_clocks pg w) else w);
          (err, w) =
            (if vdd pg \<noteq> NULL then call_int E regulator_disable (vdd pg) w
             else tegra_pmc_powergate_set E pg False w)
      in if err \<noteq> 0 then (err, w) else (0, w))"

subsection \<open>Hot reset on the Tegra114 memory controller\<close>

record tegra_mc_hotreset =
  hr_swgroup :: u32
  hr_ctrl :: u32
  hr_status :: u32
  hr_bit :: u32

text \<open>
  The loop of \<open>tegra114_stable_hotreset_check\<close>, \<open>n\<close> iterations to go; \<open>cur\<close> is \<open>cur_stat\<close>.
\<close>

fun stable_check_loop ::
  "env \<Rightarrow> u32 \<Rightarrow> u32 \<Rightarrow> nat \<Rightarrow> u32 \<Rightarrow> world \<Rightarrow> bool \<times> u32 \<times> world" where
  "stable_check_loop E reg prv 0 cur w = (True, cur, w)"
| "stable_check_loop E reg prv (Suc n) cur w =
     (let (cur', w1) = mc_readl E reg w in
      if cur' \<noteq> prv then (False, cur', w1)
      else stable_check_loop E reg prv n cur' w1)"

text \<open>
  \<open>tegra114_stable_hotreset_check(mc, reg, &stat)\<close>: the result is the return value with
  \<open>*stat\<close>, which is written only when the reads were stable. \<open>cur_stat\<close> is not initialised
  in the source; the five iterations assign it before it is read.
\<close>

definition tegra114_stable_hotreset_check ::
  "env \<Rightarrow> u32 \<Rightarrow> u32 \<Rightarrow> world \<Rightarrow> bool \<times> u32 \<times> world" where
  "tegra114_stable_hotreset_check E reg stat w =
     (let (prv, w1) = mc_readl E reg w;
          (stable, cur, w2) = stable_check_loop E reg prv 5 0 w1
      in if stable then (True, cur, w2) else (False, stat, w2))"

text \<open>
  The \<open>do ... while\<close> loop of \<open>tegra114_mc_flush\<close>. It has no bound: where it does not end,
  the result is \<open>None\<close>. \<open>continue\<close> jumps to the loop condition, with \<open>val\<close> still 0.
\<close>

partial_function (option) mc_flush_poll ::
  "env \<Rightarrow> tegra_mc_hotreset \<Rightarrow> world \<Rightarrow> world option" where
  "mc_flush_poll E hr w =
     (let w1 = udelay 10 w;
          (stable, val, w2) = tegra114_stable_hotreset_check E (hr_status hr) 0 w1
      in if val AND BIT (unat (hr_bit hr)) \<noteq> 0 then Some w2
         else mc_flush_poll E hr w2)"

text \<open>\<open>mc\<close> is the controller pointer; \<open>hotreset\<close> is \<open>None\<close> for a NULL descriptor.\<close>

definition tegra114_mc_flush ::
  "env \<Rightarrow> ptr \<Rightarrow> tegra_mc_hotreset option \<Rightarrow> world \<Rightarrow> (int \<times> world) option" where
  "tegra114_mc_flush E mc hotreset w =
     (case hotreset of
        None \<Rightarrow> Some (- EINVAL, w)
      | Some hr \<Rightarrow>
          if mc = NULL then Some (- EINVAL, w)
          else
            let w1 = mutex_lock MC w;
                (val, w2) = mc_readl E (hr_ctrl hr) w1;
                val = val OR BIT (unat (hr_bit hr));
                w3 = mc_writel val (hr_ctrl hr) w2;
                (fence, w4) = mc_readl E (hr_ctrl hr) w3
            in (case mc_flush_poll E hr w4 of
                  None \<Rightarrow> None
                | Some w5 \<Rightarrow> Some (0, mutex_unlock MC w5)))"

definition tegra114_mc_flush_done ::
  "env \<Rightarrow> ptr \<Rightarrow> tegra_mc_hotreset option \<Rightarrow> world \<Rightarrow> int \<times> world" where
  "tegra114_mc_flush_done E mc hotreset w =
     (case hotreset of
        None \<Rightarrow> (- EINVAL, w)
      | Some hr \<Rightarrow>
          if mc = NULL then (- EINVAL, w)
          else
            let w1 = mutex_lock MC w;
                (val, w2) = mc_readl E (hr_ctrl hr) w1;
                val = val AND NOT (BIT (unat (hr_bit hr)));
                w3 = mc_writel val (hr_ctrl hr) w2;
                (fence, w4) = mc_readl E (hr_ctrl hr) w3
            in (0, mutex_unlock MC w4))"

subsection \<open>The power-on sequence as the spec words it\<close>

text \<open>
  A sequence of steps, each with the test that tells whether its result is a failure.
  The steps run in order on the power gate and the world; the first step that fails
  ends the sequence with its result, and nothing is undone; when no step fails the
  result is 0.
\<close>

type_synonym step = "tegra_powergate \<Rightarrow> world \<Rightarrow> int \<times> tegra_powergate \<times> world"

fun run_steps :: "(step \<times> (int \<Rightarrow> bool)) list \<Rightarrow> step" where
  "run_steps [] pg w = (0, pg, w)"
| "run_steps ((s, failed) # rest) pg w =
     (case s pg w of (r, pg', w') \<Rightarrow> if failed r then (r, pg', w') else run_steps rest pg' w')"

definition negative :: "int \<Rightarrow> bool" where "negative r = (r < 0)"
definition nonzero :: "int \<Rightarrow> bool" where "nonzero r = (r \<noteq> 0)"
definition never :: "int \<Rightarrow> bool" where "never r = False"

text \<open>Step 1: the regulator is acquired and enabled, or the partition is switched on.\<close>

definition power_supply_on :: "env \<Rightarrow> step" where
  "power_supply_on E pg w =
     (if is_vdd pg then
        (case tegra_powergate_get_regulator E pg w of
           (r, pg', w') \<Rightarrow>
             if r \<noteq> 0 then (r, pg', w')
             else (case call_int E regulator_enable (vdd pg') w' of (r', w'') \<Rightarrow> (r', pg', w'')))
      else (case tegra_pmc_powergate_set E pg True w of (r, w') \<Rightarrow> (r, pg, w')))"

definition settle_delay :: step where
  "settle_delay pg w = (0, pg, udelay 10 w)"

text \<open>A step that leaves the power gate as it is.\<close>

definition on_world :: "(tegra_powergate \<Rightarrow> world \<Rightarrow> int \<times> world) \<Rightarrow> step" where
  "on_world f pg w = (case f pg w of (r, w') \<Rightarrow> (r, pg, w'))"

definition disable_clocks_step :: step where
  "disable_clocks_step pg w = (0, pg, tegra_pmc_powergate_disable_clocks pg w)"

definition power_on_steps ::
  "env \<Rightarrow> tegra_pmc_soc \<Rightarrow> tegra_powergate \<Rightarrow> (step \<times> (int \<Rightarrow> bool)) list" where
  "power_on_steps E soc pg =
     [(power_supply_on E, negative), (settle_delay, never)]
     @ (if is_legacy_powergate soc
        then [(on_world (tegra_pmc_powergate_reset_assert E), nonzero), (settle_delay, never)]
        else [])
     @ (if pg_id pg \<noteq> word_of_int TEGRA_POWERGATE_PCIE
        then [(on_world (tegra_pmc_powergate_enable_clocks E), nonzero), (settle_delay, never)]
        else [])
     @ [(on_world (\<lambda>pg. tegra_powergate_remove_clamping (Some soc) (sint (pg_id pg))), nonzero),
        (settle_delay, never),
        (on_world (tegra_pmc_powergate_reset_deassert E), nonzero), (settle_delay, never),
        (on_world (tegra_pmc_powergate_mc_flush_done E), nonzero), (settle_delay, never)]
     @ (if pg_id pg \<noteq> word_of_int TEGRA_POWERGATE_PCIE
        then [(disable_clocks_step, never)] else [])"

text \<open>
  The power-off sequence as the spec words it. Its last step goes by the domain's
  external-regulator flag: the regulator is disabled, or the partition is switched off.
\<close>

definition power_supply_off :: "env \<Rightarrow> step" where
  "power_supply_off E pg w =
     (if is_vdd pg then on_world (\<lambda>pg. call_int E regulator_disable (vdd pg)) pg w
      else on_world (\<lambda>pg. tegra_pmc_powergate_set E pg False) pg w)"

definition power_off_steps :: "env \<Rightarrow> tegra_pmc_soc \<Rightarrow> (step \<times> (int \<Rightarrow> bool)) list" where
  "power_off_steps E soc =
     (if \<not> is_legacy_powergate soc
      then [(on_world (tegra_pmc_powergate_enable_clocks E), nonzero), (settle_delay, never),
            (on_world (tegra_pmc_powergate_mc_flush E), nonzero), (settle_delay, never)]
      else [])
     @ [(on_world (tegra_pmc_powergate_reset_assert E), nonzero), (settle_delay, never)]
     @ (if \<not> is_legacy_powergate soc
        then [(disable_clocks_step, never), (settle_delay, never)] else [])
     @ [(power_supply_off E, nonzero)]"

text \<open>
  The regulator pointer agrees with the flag: a domain on an external regulator holds
  its regulator, any other domain holds none.
\<close>

definition regulator_held :: "tegra_powergate \<Rightarrow> bool" where
  "regulator_held pg =
     (if is_vdd pg then (case vdd pg of PTR a \<Rightarrow> True | _ \<Rightarrow> False) else vdd pg = NULL)"

text \<open>The calls into the regulator framework that a trace makes, in order.\<close>

definition regulator_calls :: "event list \<Rightarrow> event list" where
  "regulator_calls evs =
     filter (\<lambda>e. case e of IntCall f p r \<Rightarrow> f = regulator_enable \<or> f = regulator_disable
                   | _ \<Rightarrow> False) evs"

text \<open>The clocks that a trace disables, in order.\<close>

definition clock_disables :: "event list \<Rightarrow> ptr list" where
  "clock_disables evs =
     concat (map (\<lambda>e. case e of VoidCall f c \<Rightarrow> (if f = clk_disable_unprepare then [c] else [])
                         | _ \<Rightarrow> []) evs)"

subsection \<open>Reading traces\<close>

text \<open>The register writes of a trace, in order.\<close>

definition reg_writes :: "event list \<Rightarrow> event list" where
  "reg_writes evs = filter (\<lambda>e. case e of RegWrite b v offset \<Rightarrow> True | _ \<Rightarrow> False) evs"

text \<open>
  The events of the unsuccessful polls of the power-gate status, given the values read:
  each read is followed by the sleep of 10 to 20 microseconds.
\<close>

definition failed_polls :: "u32 list \<Rightarrow> event list" where
  "failed_polls vs = concat (map (\<lambda>v. [RegRead PMC PWRGATE_STATUS v, UsleepRange 10 20]) vs)"

text \<open>
  One attempt of the hot-reset flush loop: the delay of 10 microseconds, then the reads
  of the status register with the values in \<open>vs\<close>.
\<close>

definition hotreset_round :: "u32 \<Rightarrow> u32 list \<Rightarrow> event list" where
  "hotreset_round st vs = Udelay 10 # map (RegRead MC st) vs"

text \<open>
  The reads of an attempt that does not end the loop: between two and six reads, all
  but the last equal to the first, and either the last differs (not stable), or all
  six are equal and the target bit is clear.
\<close>

definition rejected_reads :: "nat \<Rightarrow> u32 list \<Rightarrow> bool" where
  "rejected_reads b vs =
     (2 \<le> length vs \<and> length vs \<le> 6 \<and> (\<forall>x\<in>set (butlast vs). x = hd vs)
      \<and> (last vs = hd vs \<longrightarrow> length vs = 6 \<and> hd vs AND BIT b = 0))"

text \<open>
  The events with which flush and flush-done start, from the history \<open>h\<close> before them: the
  lock, the read of the control register, the write that sets (flush) or clears (done)
  the group's bit, and the read back.
\<close>

definition hotreset_request :: "env \<Rightarrow> tegra_mc_hotreset \<Rightarrow> bool \<Rightarrow> event list \<Rightarrow> event list" where
  "hotreset_request E hr flush h =
     (let c = reg_value E (h @ [MutexLock MC]) MC (hr_ctrl hr);
          c' = (if flush then c OR BIT (unat (hr_bit hr)) else c AND NOT (BIT (unat (hr_bit hr))));
          evs = [MutexLock MC, RegRead MC (hr_ctrl hr) c, RegWrite MC c' (hr_ctrl hr)]
      in evs @ [RegRead MC (hr_ctrl hr) (reg_value E (h @ evs) MC (hr_ctrl hr))])"

subsection \<open>Example environments and inputs\<close>

text \<open>
  An environment in which every register reads 0, every call succeeds, every lookup
  returns an object and the APB clock runs at 408 MHz.
\<close>

definition quiet_env :: env where
  "quiet_env = \<lparr>reg_value = (\<lambda>h b offset. 0), int_result = (\<lambda>h f p. 0),
                 ptr_result = (\<lambda>h f p. PTR 1), clk_rate = (\<lambda>h c. 408000000),
                 sleep_len = (\<lambda>h. 10)\<rparr>"

text \<open>Registers read 2 (partition 1 powered) once anything has been written.\<close>

definition gate_env :: env where
  "gate_env = quiet_env\<lparr>reg_value := (\<lambda>h b offset. if reg_writes h = [] then 0 else 2)\<rparr>"

definition boot :: world where
  "boot = \<lparr>trace = [], now = 0\<rparr>"

definition example_pg :: tegra_powergate where
  "example_pg = \<lparr>pg_id = 1, of_node = PTR 7, clk = [PTR 10, PTR 11, NULL, NULL, NULL],
                  reset = [PTR 20, NULL, NULL, NULL, NULL],
                  swgroup = [PTR 30, PTR 31, NULL, NULL, NULL], is_vdd = False, vdd = NULL\<rparr>"

text \<open>Two of the chip descriptions of the source.\<close>

definition tegra20_pmc_soc :: tegra_pmc_soc where
  "tegra20_pmc_soc = \<lparr>num_powergates = 7, has_tsense_reset = False, has_gpu_clamps = False,
                       is_legacy_powergate = True\<rparr>"

definition tegra124_pmc_soc :: tegra_pmc_soc where
  "tegra124_pmc_soc = \<lparr>num_powergates = 25, has_tsense_reset = True, has_gpu_clamps = True,
                        is_legacy_powergate = False\<rparr>"

text \<open>Every register reads 2: bit 1 set, and stable.\<close>

definition settled_env :: env where
  "settled_env = quiet_env\<lparr>reg_value := (\<lambda>h b offset. 2)\<rparr>"

text \<open>
  The MC status register at 0x204 returns a different value on each of its first four
  reads (each with bit 1 set) and the constant 2 from the fifth read on.
\<close>

definition glitch_env :: env where
  "glitch_env = quiet_env\<lparr>reg_value := (\<lambda>h b offset.
     if b = MC \<and> offset = 0x204
     then (let k = length (filter (\<lambda>e. case e of RegRead b' offset' v \<Rightarrow> b' = MC \<and> offset' = 0x204
                                         | _ \<Rightarrow> False) h)
           in if k < 4 then [0x12, 0x22, 0x32, 0x42] ! k else 0x02)
     else 0)\<rparr>"

text \<open>
  A hot-reset descriptor with the registers and the bit of the first row of
  \<open>tegra114_mc_hotreset\<close>; the swgroup number plays no part.
\<close>

definition example_hotreset :: tegra_mc_hotreset where
  "example_hotreset = \<lparr>hr_swgroup = 0, hr_ctrl = 0x200, hr_status = 0x204, hr_bit = 1\<rparr>"

text \<open>What flush does in that environment.\<close>

definition glitch_result :: world where
  "glitch_result = \<lparr>trace =
        [MutexLock MC, RegRead MC 0x200 0, RegWrite MC 2 0x200, RegRead MC 0x200 0,
         Udelay 10, RegRead MC 0x204 0x12, RegRead MC 0x204 0x22,
         Udelay 10, RegRead MC 0x204 0x32, RegRead MC 0x204 0x42,
         Udelay 10, RegRead MC 0x204 2, RegRead MC 0x204 2, RegRead MC 0x204 2,
                    RegRead MC 0x204 2, RegRead MC 0x204 2, RegRead MC 0x204 2,
         MutexUnlock MC], now = 30\<rparr>"

text \<open>What power-on of the example power gate does on Tegra124 when the gate answers.\<close>

definition power_on_example_result :: world where
  "power_on_example_result = \<lparr>trace =
     [MutexLock PMC, RegRead PMC PWRGATE_STATUS 0, RegWrite PMC 0x101 PWRGATE_TOGGLE,
      RegRead PMC PWRGATE_STATUS 2, MutexUnlock PMC, Udelay 10,
      IntCall clk_prepare_enable (PTR 10) 0, IntCall clk_prepare_enable (PTR 11) 0, Udelay 10,
      RegWrite PMC 0 GPU_RG_CNTRL, Udelay 10,
      IntCall reset_control_deassert (PTR 20) 0, Udelay 10,
      IntCall tegra_mc_flush_done (PTR 30) 0, IntCall tegra_mc_flush_done (PTR 31) 0, Udelay 10,
      VoidCall clk_disable_unprepare (PTR 10), VoidCall clk_disable_unprepare (PTR 11)],
     now = 50\<rparr>"

text \<open>
  Registers read 2 (partition 1 powered) until something is written, and 0 from then on.
\<close>

definition gate_off_env :: env where
  "gate_off_env = quiet_env\<lparr>reg_value := (\<lambda>h b offset. if reg_writes h = [] then 2 else 0)\<rparr>"

text \<open>
  A domain on an external regulator whose regulator has not been found: the state in
  which \<open>tegra_pmc_powergate_init_powerdomain\<close> leaves \<open>vdd\<close> when the lookup of the device fails.
\<close>

definition unregulated_pg :: tegra_powergate where
  "unregulated_pg = example_pg\<lparr>is_vdd := True, vdd := NULL\<rparr>"

text \<open>The same domain holding its regulator.\<close>

definition regulated_pg :: tegra_powergate where
  "regulated_pg = example_pg\<lparr>is_vdd := True, vdd := PTR 40\<rparr>"

definition power_off_unregulated_result :: world where
  "power_off_unregulated_result = \<lparr>trace =
     [IntCall clk_prepare_enable (PTR 10) 0, IntCall clk_prepare_enable (PTR 11) 0, Udelay 10,
      IntCall tegra_mc_flush (PTR 30) 0, IntCall tegra_mc_flush (PTR 31) 0, Udelay 10,
      IntCall reset_control_assert (PTR 20) 0, Udelay 10,
      VoidCall clk_disable_unprepare (PTR 10), VoidCall clk_disable_unprepare (PTR 11), Udelay 10,
      MutexLock PMC, RegRead PMC PWRGATE_STATUS 2, RegWrite PMC 0x101 PWRGATE_TOGGLE,
      RegRead PMC PWRGATE_STATUS 0, MutexUnlock PMC],
     now = 40\<rparr>"

definition power_off_regulated_result :: world where
  "power_off_regulated_result = \<lparr>trace =
     [IntCall clk_prepare_enable (PTR 10) 0, IntCall clk_prepare_enable (PTR 11) 0, Udelay 10,
      IntCall tegra_mc_flush (PTR 30) 0, IntCall tegra_mc_flush (PTR 31) 0, Udelay 10,
      IntCall reset_control_assert (PTR 20) 0, Udelay 10,
      VoidCall clk_disable_unprepare (PTR 10), VoidCall clk_disable_unprepare (PTR 11), Udelay 10,
      IntCall regulator_disable (PTR 40) 0],
     now = 40\<rparr>"

section \<open>Properties\<close>

subsection \<open>Basic facts\<close>

lemma trace_emit [simp]: "trace (emit e w) = trace w @ [e]"
  and now_emit [simp]: "now (emit e w) = now w"
  by (simp_all add: emit_def)

lemma tegra_pmc_readl_eq:
  "tegra_pmc_readl E offset w =
     (reg_value E (trace w) PMC offset, emit (RegRead PMC offset (reg_value E (trace w) PMC offset)) w)"
  by (simp add: tegra_pmc_readl_def readl_def Let_def)

lemma usleep_range_simps [simp]:
  "trace (usleep_range E lo hi w) = trace w @ [UsleepRange lo hi]"
  "now w + lo \<le> now (usleep_range E lo hi w)"
  "lo \<le> hi \<Longrightarrow> now (usleep_range E lo hi w) \<le> now w + hi"
  by (simp_all add: usleep_range_def)

lemma and_BIT: "v AND BIT n = (if bit v n then BIT n else 0)"
  for v :: u32
  by (rule bit_eqI) (auto simp: BIT_def bit_simps)

lemma BIT_nonzero: "n < 32 \<Longrightarrow> BIT n \<noteq> 0"
  by (simp add: BIT_def)


lemma reg_writes_failed_polls [simp]: "reg_writes (failed_polls vs) = []"
  by (induction vs) (simp_all add: reg_writes_def failed_polls_def)

lemma reg_writes_append [simp]: "reg_writes (xs @ ys) = reg_writes xs @ reg_writes ys"
  by (simp add: reg_writes_def)

lemma reg_writes_simps [simp]:
  "reg_writes [] = []"
  "reg_writes (RegWrite b v offset # evs) = RegWrite b v offset # reg_writes evs"
  "reg_writes (RegRead b offset v # evs) = reg_writes evs"
  "reg_writes (MutexLock b # evs) = reg_writes evs"
  "reg_writes (MutexUnlock b # evs) = reg_writes evs"
  by (simp_all add: reg_writes_def)

subsection \<open>Clamps\<close>

text \<open>
  C6. For a valid partition id, removing the clamps succeeds and adds exactly one event
  to the trace, a register write: for the 3D partition on a chip with a GPU clamp
  register, the value 0 to GPU_RG_CNTRL (and nothing to REMOVE_CLAMPING); in every
  other case a mask to REMOVE_CLAMPING, which is the PCIE bit for VDEC, the VDEC bit
  for PCIE and the partition's own bit for every other id, 3D without GPU clamps
  included.
\<close>

theorem remove_clamping_writes_one_value:
  assumes "0 \<le> ident" and "ident < int (num_powergates s)"
  shows "tegra_powergate_remove_clamping (Some s) ident w =
           (0, w\<lparr>trace := trace w @
              [if ident = TEGRA_POWERGATE_3D \<and> has_gpu_clamps s
               then RegWrite PMC 0 GPU_RG_CNTRL
               else RegWrite PMC
                      (if ident = TEGRA_POWERGATE_VDEC then push_bit (nat TEGRA_POWERGATE_PCIE) 1
                       else if ident = TEGRA_POWERGATE_PCIE then push_bit (nat TEGRA_POWERGATE_VDEC) 1
                       else push_bit (nat ident) 1)
                      REMOVE_CLAMPING]\<rparr>)"
  using assms
  by (simp add: tegra_powergate_remove_clamping_def tegra_pmc_writel_def writel_def emit_def)

theorem remove_clamping_writes_one_value_witness:
  "tegra_powergate_remove_clamping
     (Some \<lparr>num_powergates = 25, has_tsense_reset = True, has_gpu_clamps = True,
            is_legacy_powergate = False\<rparr>) 4 \<lparr>trace = [], now = 0\<rparr>
   = (0, \<lparr>trace = [RegWrite PMC 8 REMOVE_CLAMPING], now = 0\<rparr>)"
  using remove_clamping_writes_one_value
    [of 4 "\<lparr>num_powergates = 25, has_tsense_reset = True, has_gpu_clamps = True,
            is_legacy_powergate = False\<rparr>" "\<lparr>trace = [], now = 0\<rparr>"]
  by (simp add: TEGRA_POWERGATE_3D_def TEGRA_POWERGATE_VDEC_def TEGRA_POWERGATE_PCIE_def)

subsection \<open>The power-gate primitive\<close>

lemma powergate_set_poll_spec:
  assumes "powergate_set_poll E ident msk timeout w = (err, w')"
  shows "\<exists>vs. (\<forall>u\<in>set vs. u AND BIT (unat ident) \<noteq> msk)
            \<and> 10 * length vs \<le> (timeout - now w) + 9
            \<and> now w + 10 * length vs \<le> now w' \<and> now w' \<le> now w + 20 * length vs
            \<and> ((err = 0 \<and> (\<exists>v. v AND BIT (unat ident) = msk
                    \<and> trace w' = trace w @ failed_polls vs @ [RegRead PMC PWRGATE_STATUS v]))
               \<or> (err = - ETIMEDOUT \<and> timeout \<le> now w' \<and> trace w' = trace w @ failed_polls vs))"
  using assms
proof (induction E ident msk timeout w arbitrary: err w' rule: powergate_set_poll.induct)
  case (1 E ident msk timeout w)
  let ?v = "reg_value E (trace w) PMC PWRGATE_STATUS"
  let ?w1 = "emit (RegRead PMC PWRGATE_STATUS ?v) w"
  show ?case
  proof (cases "time_before (jiffies w) timeout")
    case False
    with "1.prems" have "err = - ETIMEDOUT" "w' = w"
      by (simp_all add: powergate_set_poll.simps[of E ident msk timeout w])
    with False show ?thesis
      by (intro exI[of _ "[]"]) (simp add: failed_polls_def time_before_def jiffies_def)
  next
    case True
    show ?thesis
    proof (cases "?v AND BIT (unat ident) = msk")
      case m: True
      with True "1.prems" have "err = 0" "w' = ?w1"
        by (simp_all add: powergate_set_poll.simps[of E ident msk timeout w] tegra_pmc_readl_eq)
      with m show ?thesis
        by (intro exI[of _ "[]"]) (simp add: failed_polls_def)
    next
      case m: False
      let ?w2 = "usleep_range E 10 20 ?w1"
      from True m "1.prems" have rec: "powergate_set_poll E ident msk timeout ?w2 = (err, w')"
        by (simp add: powergate_set_poll.simps[of E ident msk timeout w] tegra_pmc_readl_eq)
      have eq: "(?v, ?w1) = tegra_pmc_readl E PWRGATE_STATUS w"
        by (simp add: tegra_pmc_readl_eq)
      from "1.IH"[OF True refl eq m rec]
      obtain vs where vs: "\<forall>u\<in>set vs. u AND BIT (unat ident) \<noteq> msk"
          "10 * length vs \<le> (timeout - now ?w2) + 9"
          "now ?w2 + 10 * length vs \<le> now w'" "now w' \<le> now ?w2 + 20 * length vs"
          "(err = 0 \<and> (\<exists>v. v AND BIT (unat ident) = msk
                    \<and> trace w' = trace ?w2 @ failed_polls vs @ [RegRead PMC PWRGATE_STATUS v]))
               \<or> (err = - ETIMEDOUT \<and> timeout \<le> now w' \<and> trace w' = trace ?w2 @ failed_polls vs)"
        by (auto simp: tegra_pmc_readl_eq)
      define t2 where "t2 = now ?w2"
      have tr2: "trace ?w2 = trace w @ [RegRead PMC PWRGATE_STATUS ?v, UsleepRange 10 20]"
        by simp
      have n1: "now w + 10 \<le> t2"
        unfolding t2_def using usleep_range_simps(2)[of ?w1 10 E 20] by simp
      have n2: "t2 \<le> now w + 20"
        unfolding t2_def using usleep_range_simps(3)[of 10 20 E ?w1] by simp
      have lt: "now w < timeout" using True by (simp add: time_before_def jiffies_def)
      have fp: "failed_polls (?v # vs) = [RegRead PMC PWRGATE_STATUS ?v, UsleepRange 10 20] @ failed_polls vs"
        by (simp add: failed_polls_def)
      have c1: "\<forall>u\<in>set (?v # vs). u AND BIT (unat ident) \<noteq> msk" using vs(1) m by simp
      have c2: "10 * length (?v # vs) \<le> (timeout - now w) + 9"
        using vs(2) n1 lt unfolding t2_def[symmetric] by (cases "length vs") auto
      have c3: "now w + 10 * length (?v # vs) \<le> now w'"
        using vs(3) n1 unfolding t2_def[symmetric] by simp
      have c4: "now w' \<le> now w + 20 * length (?v # vs)"
        using vs(4) n2 unfolding t2_def[symmetric] by simp
      have c5: "(err = 0 \<and> (\<exists>v. v AND BIT (unat ident) = msk
                    \<and> trace w' = trace w @ failed_polls (?v # vs) @ [RegRead PMC PWRGATE_STATUS v]))
               \<or> (err = - ETIMEDOUT \<and> timeout \<le> now w' \<and> trace w' = trace w @ failed_polls (?v # vs))"
        using vs(5) unfolding tr2 fp by simp
      show ?thesis
        using c1 c2 c3 c4 c5 by blast
    qed
  qed
qed






lemma powergate_set_toggle_example:
  "tegra_pmc_powergate_set gate_env example_pg True boot =
     (0, \<lparr>trace = [MutexLock PMC, RegRead PMC PWRGATE_STATUS 0,
                     RegWrite PMC 0x101 PWRGATE_TOGGLE,
                     RegRead PMC PWRGATE_STATUS 2, MutexUnlock PMC], now = 0\<rparr>)"
  by (simp add: tegra_pmc_powergate_set_def Let_def mutex_lock_def mutex_unlock_def
        tegra_pmc_readl_eq tegra_pmc_writel_def writel_def jiffies_def msecs_to_jiffies_def
        powergate_set_poll.simps time_before_def
        gate_env_def quiet_env_def boot_def example_pg_def BIT_def emit_def PWRGATE_TOGGLE_START_def)

subsection \<open>I/O rails\<close>

lemma c_rem_nonneg: "0 \<le> a \<Longrightarrow> c_rem a 32 = a mod 32"
  by (simp add: c_rem_def sgn_if minus_mult_div_eq_mod)

text \<open>
  C9. A rail id whose bit position in its bank is 30 or 31 (the ids 30, 31, 62 and 63)
  and every id above 63 is rejected with \<open>-EINVAL\<close> by both \<open>tegra_io_rail_power_on\<close> and
  \<open>tegra_io_rail_power_off\<close>, and the trace is left as it was: no register is read or
  written, in particular not the sample-enable, timing and request registers.
\<close>

theorem io_rail_invalid_id_rejected:
  assumes "63 < ident \<or> (0 \<le> ident \<and> (ident mod 32 = 30 \<or> ident mod 32 = 31))"
  shows "tegra_io_rail_power_on E ident w = Some (- EINVAL, w)
       \<and> tegra_io_rail_power_off E ident w = Some (- EINVAL, w)"
proof -
  have "tegra_io_rail_prepare E ident w
          = Some (- EINVAL, 0, 0, word_of_int (c_rem ident 32), w)"
    using assms by (auto simp: tegra_io_rail_prepare_def Let_def c_rem_nonneg)
  then show ?thesis
    by (simp add: tegra_io_rail_power_on_def tegra_io_rail_power_off_def EINVAL_def)
qed

theorem io_rail_invalid_id_rejected_witness:
  "tegra_io_rail_power_on quiet_env 62 boot = Some (- EINVAL, boot)
   \<and> tegra_io_rail_power_off quiet_env 62 boot = Some (- EINVAL, boot)"
  using io_rail_invalid_id_rejected [of 62 quiet_env boot] by simp

lemma div_round_up_ceiling:
  fixes n d :: nat
  assumes "0 < d"
  shows "int ((n + d - 1) div d) = \<lceil>real n / real d\<rceil>"
proof -
  define a where "a = (n + d - 1) div d"
  have 1: "a * d \<le> n + d - 1" unfolding a_def by simp
  have 2: "n + d - 1 < a * d + d" unfolding a_def using assms
    using dividend_less_div_times[of d "n + d - 1"] by (simp add: ac_simps)
  have le: "n \<le> a * d" using 2 assms by linarith
  have lt: "a * d + 1 \<le> n + d" using 1 assms by linarith
  have r1: "real n / real d \<le> real a"
  proof -
    have "real n \<le> real (a * d)" using le by (simp only: of_nat_le_iff)
    then show ?thesis using assms by (simp add: divide_le_eq)
  qed
  have r2: "real a - 1 < real n / real d"
  proof -
    have "real (a * d + 1) \<le> real (n + d)" using lt by (simp only: of_nat_le_iff)
    then have "(real a - 1) * real d < real n" by (simp add: algebra_simps)
    then show ?thesis using assms by (simp add: less_divide_eq)
  qed
  have "\<lceil>real n / real d\<rceil> = int a"
    by (rule ceiling_unique) (use r1 r2 in simp_all)
  then show ?thesis by (simp add: a_def)
qed

lemma DIV_ROUND_UP_unat:
  assumes "d \<noteq> 0"
  shows "\<exists>v. DIV_ROUND_UP n d = Some v \<and> unat v = (unat n + unat d - 1) div unat d"
proof -
  have d: "0 < unat d" using assms by (simp add: unat_gt_0)
  let ?q = "(unat n + unat d - 1) div unat d"
  have "unat n + unat d - 1 \<le> unat n * unat d + (unat d - 1)"
    using d by (cases "unat d") auto
  then have "?q \<le> (unat n * unat d + (unat d - 1)) div unat d"
    by (rule div_le_mono)
  also have "\<dots> = unat n + (unat d - 1) div unat d"
    using d by (intro div_mult_self3) simp
  also have "\<dots> = unat n"
    using d by simp
  finally have "?q \<le> unat n" .
  moreover have "unat n < 2 ^ 32" using unsigned_less[of n, where 'a=nat] by simp
  ultimately have "?q < 2 ^ 32" by linarith
  then have "unat (word_of_nat ?q :: u32) = ?q"
    by (simp add: unsigned_of_nat take_bit_nat_eq_self)
  then show ?thesis
    using assms by (simp add: DIV_ROUND_UP_def)
qed

text \<open>
  C10. For a valid rail id, a clock lookup that succeeds and a clock rate R > 0, the
  prepare step enables sampling and then writes to SEL_DPD_TIM the value
  \<open>ceil(200 / ceil(1000000000 / R))\<close>, both divisions rounding up exactly. At
  R = 408000000 the tick length is 3 and the value written is 67.
\<close>

theorem sel_dpd_tim_value:
  assumes valid: "0 \<le> ident" "ident \<le> 63" "ident mod 32 \<noteq> 30" "ident mod 32 \<noteq> 31"
      and c: "c = ptr_result E (trace w) clk_get_sys NULL" "\<not> IS_ERR c"
      and R: "R = clk_rate E (trace w @ [PtrCall clk_get_sys NULL c]) c" "0 < unat R"
  shows "\<exists>request status bitno v.
           tegra_io_rail_prepare E ident w =
             Some (0, request, status, bitno,
                   w\<lparr>trace := trace w @
                       [PtrCall clk_get_sys NULL c, ClkGetRate c R, VoidCall clk_put c,
                        RegWrite PMC DPD_SAMPLE_ENABLE DPD_SAMPLE,
                        RegWrite PMC v SEL_DPD_TIM]\<rparr>)
           \<and> int (unat v) = \<lceil>200 / real_of_int \<lceil>1000000000 / real (unat R)\<rceil>\<rceil>"
proof -
  define r where "r = unat R"
  have r: "0 < r" using R(2) by (simp add: r_def)
  have R0: "R \<noteq> 0" using R(2) by (auto simp: unat_gt_0)
  obtain v1 where v1: "DIV_ROUND_UP 1000000000 R = Some v1"
      "unat v1 = (unat (1000000000 :: u32) + unat R - 1) div unat R"
    using DIV_ROUND_UP_unat[OF R0, of 1000000000] by blast
  define t where "t = unat v1"
  have t_eq: "t = (1000000000 + r - 1) div r"
    using v1(2) by (simp add: t_def r_def)
  have tick: "int t = \<lceil>1000000000 / real r\<rceil>"
    using div_round_up_ceiling[OF r, of 1000000000] t_eq by simp
  have "0 < \<lceil>1000000000 / real r\<rceil>"
    using r by simp
  then have t: "0 < t" using tick by linarith
  then have v10: "v1 \<noteq> 0" by (auto simp: t_def)
  obtain v where v: "DIV_ROUND_UP 200 v1 = Some v"
      "unat v = (unat (200 :: u32) + unat v1 - 1) div unat v1"
    using DIV_ROUND_UP_unat[OF v10, of 200] by blast
  define u where "u = unat v"
  have u_eq: "u = (200 + t - 1) div t"
    using v(2) by (simp add: t_def u_def)
  have "int u = \<lceil>200 / real t\<rceil>"
    using div_round_up_ceiling[OF t, of 200] u_eq by simp
  moreover have "real t = real_of_int \<lceil>1000000000 / real r\<rceil>"
    using tick by (metis of_int_of_nat_eq)
  ultimately have "int u = \<lceil>200 / real_of_int \<lceil>1000000000 / real r\<rceil>\<rceil>"
    by simp
  then have val: "int (unat v) = \<lceil>200 / real_of_int \<lceil>1000000000 / real (unat R)\<rceil>\<rceil>"
    unfolding u_def r_def .
  have cr: "c_rem ident 32 = ident mod 32" using valid(1) by (rule c_rem_nonneg)
  have "uint (word_of_int (ident mod 32) :: u32) = ident mod 32"
    by (simp add: uint_word_of_int take_bit_int_eq_self)
  then have bits: "(word_of_int (c_rem ident 32) :: u32) \<noteq> 30"
      "(word_of_int (c_rem ident 32) :: u32) \<noteq> 31"
    using valid(3,4) unfolding cr by auto
  have "tegra_io_rail_prepare E ident w =
             Some (0, if ident < 32 then IO_DPD_REQ else IO_DPD2_REQ,
                   if ident < 32 then IO_DPD_STATUS else IO_DPD2_STATUS,
                   word_of_int (c_rem ident 32),
                   w\<lparr>trace := trace w @
                       [PtrCall clk_get_sys NULL c, ClkGetRate c R, VoidCall clk_put c,
                        RegWrite PMC DPD_SAMPLE_ENABLE DPD_SAMPLE,
                        RegWrite PMC v SEL_DPD_TIM]\<rparr>)"
    using valid(2) bits c R(1) v1(1) v(1)
    by (simp add: tegra_io_rail_prepare_def Let_def call_ptr_def clk_get_rate_def call_void_def
          tegra_pmc_writel_def writel_def emit_def split: prod.splits)
  with val show ?thesis by blast
qed

theorem sel_dpd_tim_value_witness:
  "\<exists>request status bitno v.
     tegra_io_rail_prepare quiet_env 5 boot =
       Some (0, request, status, bitno,
             \<lparr>trace = [PtrCall clk_get_sys NULL (PTR 1), ClkGetRate (PTR 1) 408000000,
                       VoidCall clk_put (PTR 1),
                       RegWrite PMC DPD_SAMPLE_ENABLE DPD_SAMPLE,
                       RegWrite PMC v SEL_DPD_TIM], now = 0\<rparr>)
     \<and> unat v = 67"
proof -
  have c: "PTR 1 = ptr_result quiet_env (trace boot) clk_get_sys NULL" "\<not> IS_ERR (PTR 1)"
    by (simp_all add: quiet_env_def IS_ERR_def)
  have R: "408000000 = clk_rate quiet_env (trace boot @ [PtrCall clk_get_sys NULL (PTR 1)]) (PTR 1)"
      "0 < unat (408000000 :: u32)"
    by (simp_all add: quiet_env_def)
  have tick: "\<lceil>1000000000 / real (unat (408000000 :: u32))\<rceil> = 3"
    by simp
  have val: "\<lceil>200 / real_of_int \<lceil>1000000000 / real (unat (408000000 :: u32))\<rceil>\<rceil> = 67"
    unfolding tick by simp
  from sel_dpd_tim_value [of 5 "PTR 1" quiet_env boot 408000000, OF _ _ _ _ c R]
  obtain request status bitno v where p:
    "tegra_io_rail_prepare quiet_env 5 boot =
       Some (0, request, status, bitno,
             boot\<lparr>trace := trace boot @ [PtrCall clk_get_sys NULL (PTR 1), ClkGetRate (PTR 1) 408000000,
                       VoidCall clk_put (PTR 1),
                       RegWrite PMC DPD_SAMPLE_ENABLE DPD_SAMPLE,
                       RegWrite PMC v SEL_DPD_TIM]\<rparr>)"
    and v: "int (unat v) = \<lceil>200 / real_of_int \<lceil>1000000000 / real (unat (408000000 :: u32))\<rceil>\<rceil>"
    by auto
  from v have "unat v = 67"
    unfolding val by linarith
  moreover from p have "tegra_io_rail_prepare quiet_env 5 boot =
       Some (0, request, status, bitno,
             \<lparr>trace = [PtrCall clk_get_sys NULL (PTR 1), ClkGetRate (PTR 1) 408000000,
                       VoidCall clk_put (PTR 1),
                       RegWrite PMC DPD_SAMPLE_ENABLE DPD_SAMPLE,
                       RegWrite PMC v SEL_DPD_TIM], now = 0\<rparr>)"
    by (simp add: boot_def)
  ultimately show ?thesis by blast
qed

lemma sel_dpd_tim_example:
  "tegra_io_rail_prepare quiet_env 5 boot =
       Some (0, IO_DPD_REQ, IO_DPD_STATUS, 5,
             \<lparr>trace = [PtrCall clk_get_sys NULL (PTR 1), ClkGetRate (PTR 1) 408000000,
                       VoidCall clk_put (PTR 1),
                       RegWrite PMC DPD_SAMPLE_ENABLE DPD_SAMPLE,
                       RegWrite PMC 67 SEL_DPD_TIM], now = 0\<rparr>)"
  by (simp add: tegra_io_rail_prepare_def Let_def call_ptr_def clk_get_rate_def call_void_def
          tegra_pmc_writel_def writel_def emit_def quiet_env_def boot_def IS_ERR_def c_rem_def
          DIV_ROUND_UP_def)

subsection \<open>Hot reset\<close>

lemma mc_readl_eq:
  "mc_readl E offset w =
     (reg_value E (trace w) MC offset, emit (RegRead MC offset (reg_value E (trace w) MC offset)) w)"
  by (simp add: mc_readl_def readl_def Let_def)

lemma udelay_simps [simp]:
  "trace (udelay n w) = trace w @ [Udelay n]" "now (udelay n w) = now w + n"
  by (simp_all add: udelay_def)

lemma stable_check_loop_spec:
  assumes "stable_check_loop E reg prv n cur w = (ok, cur', w')"
  shows "now w' = now w
       \<and> (ok \<longrightarrow> trace w' = trace w @ replicate n (RegRead MC reg prv)
                 \<and> cur' = (if n = 0 then cur else prv))
       \<and> (\<not> ok \<longrightarrow> (\<exists>k v. k < n \<and> v \<noteq> prv \<and> cur' = v
                 \<and> trace w' = trace w @ replicate k (RegRead MC reg prv) @ [RegRead MC reg v]))"
  using assms
proof (induction n arbitrary: cur w)
  case 0
  then show ?case by simp
next
  case (Suc n)
  let ?v = "reg_value E (trace w) MC reg"
  let ?w1 = "emit (RegRead MC reg ?v) w"
  show ?case
  proof (cases "?v = prv")
    case False
    with Suc.prems have "ok = False" "cur' = ?v" "w' = ?w1"
      by (auto simp: mc_readl_eq)
    with False show ?thesis
      by (auto intro!: exI[of _ 0])
  next
    case True
    with Suc.prems have rec: "stable_check_loop E reg prv n ?v ?w1 = (ok, cur', w')"
      by (simp add: mc_readl_eq)
    note ih = Suc.IH[OF rec]
    show ?thesis
    proof (cases ok)
      case True
      with ih \<open>?v = prv\<close> show ?thesis
        by (simp add: replicate_app_Cons_same)
    next
      case False
      with ih obtain k v where kv: "k < n" "v \<noteq> prv" "cur' = v"
          "trace w' = trace ?w1 @ replicate k (RegRead MC reg prv) @ [RegRead MC reg v]"
        by blast
      have "trace w' = trace w @ replicate (Suc k) (RegRead MC reg prv) @ [RegRead MC reg v]"
        using kv(4) \<open>?v = prv\<close> by simp
      then have "\<exists>k v. k < Suc n \<and> v \<noteq> prv \<and> cur' = v
                 \<and> trace w' = trace w @ replicate k (RegRead MC reg prv) @ [RegRead MC reg v]"
        using kv(1,2,3) by (intro exI[of _ "Suc k"] exI[of _ v]) simp
      moreover have "now w' = now w" using ih by simp
      ultimately show ?thesis using False by blast
    qed
  qed
qed

lemma stable_hotreset_check_spec:
  assumes "tegra114_stable_hotreset_check E reg stat w = (ok, val, w')"
  shows "now w' = now w
       \<and> (ok \<longrightarrow> trace w' = trace w @ map (RegRead MC reg) (replicate 6 val)
                 \<and> val = reg_value E (trace w) MC reg)
       \<and> (\<not> ok \<longrightarrow> val = stat \<and> (\<exists>vs. trace w' = trace w @ map (RegRead MC reg) vs
                 \<and> 2 \<le> length vs \<and> length vs \<le> 6 \<and> (\<forall>x\<in>set (butlast vs). x = hd vs)
                 \<and> last vs \<noteq> hd vs))"
proof -
  let ?prv = "reg_value E (trace w) MC reg"
  let ?w1 = "emit (RegRead MC reg ?prv) w"
  obtain ok1 cur w2 where l: "stable_check_loop E reg ?prv 5 0 ?w1 = (ok1, cur, w2)"
    by (cases "stable_check_loop E reg ?prv 5 0 ?w1") auto
  note sp = stable_check_loop_spec[OF l]
  show ?thesis
  proof (cases ok1)
    case True
    with assms l have "ok" "val = cur" "w' = w2"
      by (simp_all add: tegra114_stable_hotreset_check_def mc_readl_eq)
    with True sp show ?thesis
      by (simp add: numeral_eq_Suc)
  next
    case False
    with assms l have r: "\<not> ok" "val = stat" "w' = w2"
      by (simp_all add: tegra114_stable_hotreset_check_def mc_readl_eq)
    from False sp obtain k v where kv: "k < 5" "v \<noteq> ?prv"
        "trace w2 = trace ?w1 @ replicate k (RegRead MC reg ?prv) @ [RegRead MC reg v]"
      by blast
    let ?vs = "replicate (Suc k) ?prv @ [v]"
    have t: "trace w' = trace w @ map (RegRead MC reg) ?vs"
      using kv(3) r(3) by simp
    have sh: "2 \<le> length ?vs \<and> length ?vs \<le> 6 \<and> (\<forall>x\<in>set (butlast ?vs). x = hd ?vs)
              \<and> last ?vs \<noteq> hd ?vs"
      using kv(1,2) by (simp add: butlast_append)
    have n: "now w' = now w" using sp r(3) by simp
    have "\<exists>vs. trace w' = trace w @ map (RegRead MC reg) vs
                 \<and> 2 \<le> length vs \<and> length vs \<le> 6 \<and> (\<forall>x\<in>set (butlast vs). x = hd vs)
                 \<and> last vs \<noteq> hd vs"
      using t sh by (intro exI[of _ ?vs] conjI) blast+
    with n r show ?thesis by blast
  qed
qed

lemma mc_flush_poll_spec:
  assumes "mc_flush_poll E hr w = Some w'"
  shows "\<exists>rounds v. trace w' = trace w @ concat (map (hotreset_round (hr_status hr)) rounds)
                          @ hotreset_round (hr_status hr) (replicate 6 v)
           \<and> v AND BIT (unat (hr_bit hr)) \<noteq> 0
           \<and> (\<exists>h. v = reg_value E h MC (hr_status hr))
           \<and> (\<forall>vs\<in>set rounds. rejected_reads (unat (hr_bit hr)) vs)
           \<and> now w' = now w + 10 * Suc (length rounds)"
proof (rule mc_flush_poll.raw_induct
    [where P = "\<lambda>E hr w w'. \<exists>rounds v.
             trace w' = trace w @ concat (map (hotreset_round (hr_status hr)) rounds)
                          @ hotreset_round (hr_status hr) (replicate 6 v)
           \<and> v AND BIT (unat (hr_bit hr)) \<noteq> 0
           \<and> (\<exists>h. v = reg_value E h MC (hr_status hr))
           \<and> (\<forall>vs\<in>set rounds. rejected_reads (unat (hr_bit hr)) vs)
           \<and> now w' = now w + 10 * Suc (length rounds)", OF _ assms])
  fix poll E hr w w'
  assume IH: "\<And>(E :: env) (hr :: tegra_mc_hotreset) w y. poll E hr w = Some y \<Longrightarrow>
          \<exists>rounds v. trace y = trace w @ concat (map (hotreset_round (hr_status hr)) rounds)
                          @ hotreset_round (hr_status hr) (replicate 6 v)
           \<and> v AND BIT (unat (hr_bit hr)) \<noteq> 0
           \<and> (\<exists>h. v = reg_value E h MC (hr_status hr))
           \<and> (\<forall>vs\<in>set rounds. rejected_reads (unat (hr_bit hr)) vs)
           \<and> now y = now w + 10 * Suc (length rounds)"
    and body: "(let w1 = udelay 10 w;
                 (stable, val, w2) = tegra114_stable_hotreset_check E (hr_status hr) 0 w1
             in if val AND BIT (unat (hr_bit hr)) \<noteq> 0 then Some w2 else poll E hr w2) = Some w'"
  let ?st = "hr_status hr"
  let ?b = "unat (hr_bit hr)"
  obtain ok val w2 where chk:
    "tegra114_stable_hotreset_check E ?st 0 (udelay 10 w) = (ok, val, w2)"
    by (cases "tegra114_stable_hotreset_check E ?st 0 (udelay 10 w)") auto
  note sp = stable_hotreset_check_spec[OF chk]
  show "\<exists>rounds v. trace w' = trace w @ concat (map (hotreset_round (hr_status hr)) rounds)
                          @ hotreset_round (hr_status hr) (replicate 6 v)
           \<and> v AND BIT (unat (hr_bit hr)) \<noteq> 0
           \<and> (\<exists>h. v = reg_value E h MC (hr_status hr))
           \<and> (\<forall>vs\<in>set rounds. rejected_reads (unat (hr_bit hr)) vs)
           \<and> now w' = now w + 10 * Suc (length rounds)"
  proof (cases "val AND BIT ?b \<noteq> 0")
    case True
    with body chk have w': "w' = w2" by (simp add: Let_def)
    have ok: ok
    proof (rule ccontr)
      assume "\<not> ok"
      with sp have "val = 0" by simp
      with True show False by simp
    qed
    with sp have t: "trace w2 = trace w @ hotreset_round ?st (replicate 6 val)"
        and n: "now w2 = now w + 10"
        and "val = reg_value E (trace (udelay 10 w)) MC ?st"
      by (simp_all add: hotreset_round_def)
    then have h: "\<exists>h. val = reg_value E h MC ?st" by blast
    show ?thesis
      using True t n h unfolding w'
      by (rule_tac x = "[]" in exI, rule_tac x = val in exI) simp
  next
    case False
    with body chk have rec: "poll E hr w2 = Some w'" by (simp add: Let_def)
    from IH[OF rec] obtain rounds v where r:
      "trace w' = trace w2 @ concat (map (hotreset_round ?st) rounds)
                          @ hotreset_round ?st (replicate 6 v)"
      "v AND BIT ?b \<noteq> 0" "\<exists>h. v = reg_value E h MC ?st"
      "\<forall>vs\<in>set rounds. rejected_reads ?b vs"
      "now w' = now w2 + 10 * Suc (length rounds)"
      by blast
    have "\<exists>vs. trace w2 = trace w @ hotreset_round ?st vs \<and> rejected_reads ?b vs"
    proof (cases ok)
      case True
      with sp False show ?thesis
        by (intro exI[of _ "replicate 6 val"])
           (auto simp: hotreset_round_def rejected_reads_def dest: in_set_butlastD)
    next
      case nok: False
      with sp obtain vs where "trace w2 = trace (udelay 10 w) @ map (RegRead MC ?st) vs"
        "2 \<le> length vs" "length vs \<le> 6" "\<forall>x\<in>set (butlast vs). x = hd vs" "last vs \<noteq> hd vs"
        by blast
      then show ?thesis
        by (intro exI[of _ vs]) (simp add: hotreset_round_def rejected_reads_def)
    qed
    then obtain vs where vs: "trace w2 = trace w @ hotreset_round ?st vs" "rejected_reads ?b vs"
      by blast
    have n2: "now w2 = now w + 10" using sp by simp
    show ?thesis
      using r vs n2
      by (rule_tac x = "vs # rounds" in exI, rule_tac x = v in exI) simp
  qed
qed


lemma stable_check_loop_settled:
  assumes "\<forall>h. length (trace w) \<le> length h \<longrightarrow> reg_value E h MC reg = prv"
  shows "\<exists>w'. stable_check_loop E reg prv n cur w = (True, if n = 0 then cur else prv, w')"
  using assms
proof (induction n arbitrary: cur w)
  case 0
  then show ?case by simp
next
  case (Suc n)
  let ?w1 = "emit (RegRead MC reg prv) w"
  have v: "reg_value E (trace w) MC reg = prv" using Suc.prems by simp
  have "\<forall>h. length (trace ?w1) \<le> length h \<longrightarrow> reg_value E h MC reg = prv"
    using Suc.prems by simp
  from Suc.IH[OF this, of prv] obtain w' where
    "stable_check_loop E reg prv n prv ?w1 = (True, if n = 0 then prv else prv, w')" by blast
  then show ?case using v by (simp add: mc_readl_eq)
qed

lemma mc_flush_poll_settles:
  assumes "\<forall>h. N \<le> length h \<longrightarrow> reg_value E h MC (hr_status hr) = c"
      and "c AND BIT (unat (hr_bit hr)) \<noteq> 0"
  shows "\<exists>w'. mc_flush_poll E hr w = Some w'"
proof (induction "N - length (trace w)" arbitrary: w rule: less_induct)
  case less
  let ?st = "hr_status hr"
  let ?w1 = "udelay 10 w"
  obtain ok val w2 where chk: "tegra114_stable_hotreset_check E ?st 0 ?w1 = (ok, val, w2)"
    by (cases "tegra114_stable_hotreset_check E ?st 0 ?w1") auto
  note sp = stable_hotreset_check_spec[OF chk]
  show ?case
  proof (cases "val AND BIT (unat (hr_bit hr)) \<noteq> 0")
    case True
    with chk show ?thesis by (subst mc_flush_poll.simps) (simp add: Let_def)
  next
    case False
    have lt: "length (trace w) < N"
    proof (rule ccontr)
      assume "\<not> length (trace w) < N"
      then have all: "\<forall>h. length (trace ?w1) \<le> length h \<longrightarrow> reg_value E h MC ?st = c"
        using assms(1) by simp
      then have c: "reg_value E (trace ?w1) MC ?st = c" by simp
      let ?w1' = "emit (RegRead MC ?st c) ?w1"
      have "\<forall>h. length (trace ?w1') \<le> length h \<longrightarrow> reg_value E h MC ?st = c"
        using all by simp
      from stable_check_loop_settled[OF this, of 5 0] obtain w'' where
        "stable_check_loop E ?st c 5 0 ?w1' = (True, c, w'')" by auto
      with c chk have "val = c"
        by (simp add: tegra114_stable_hotreset_check_def mc_readl_eq)
      with False assms(2) show False by simp
    qed
    have "length (trace w) < length (trace w2)"
      using sp by (cases ok) auto
    with lt have "N - length (trace w2) < N - length (trace w)" by linarith
    from less[OF this] obtain w' where "mc_flush_poll E hr w2 = Some w'" by blast
    with chk False show ?thesis by (subst mc_flush_poll.simps) (simp add: Let_def)
  qed
qed

lemma and_BIT_nonzero: "(v AND BIT n \<noteq> 0) = bit v n"
  for v :: u32
  using bit_imp_le_length[of v n] BIT_nonzero[of n] by (auto simp: and_BIT)

lemma flush_start:
  "mc \<noteq> NULL \<Longrightarrow>
   tegra114_mc_flush E mc (Some hr) w =
     (case mc_flush_poll E hr (w\<lparr>trace := trace w @ hotreset_request E hr True (trace w)\<rparr>) of
        None \<Rightarrow> None
      | Some w5 \<Rightarrow> Some (0, mutex_unlock MC w5))"
  by (simp add: tegra114_mc_flush_def hotreset_request_def Let_def mutex_lock_def mc_readl_eq
        mc_writel_def writel_def emit_def)

text \<open>
  C7. Flush and flush-done return \<open>-EINVAL\<close>, without touching anything, when the
  controller or the descriptor is NULL. With both present, flush-done always returns 0
  after exactly: lock, read of the control register, write with the group's bit
  cleared, read back of the control register, unlock; it never reads the status
  register to poll. Flush with both present never returns an error: it has no timeout,
  so it either does not return or returns 0, and it does return 0 when the status
  register settles on a value with the target bit set.
\<close>

theorem hotreset_invalid_argument_only:
  "(mc = NULL \<or> hotreset = None \<longrightarrow>
      tegra114_mc_flush E mc hotreset w = Some (- EINVAL, w)
      \<and> tegra114_mc_flush_done E mc hotreset w = (- EINVAL, w))
   \<and> (mc \<noteq> NULL \<and> hotreset = Some hr \<longrightarrow>
        tegra114_mc_flush_done E mc hotreset w =
          (0, w\<lparr>trace := trace w @ hotreset_request E hr False (trace w) @ [MutexUnlock MC]\<rparr>)
      \<and> (tegra114_mc_flush E mc hotreset w = None
           \<or> (\<exists>w'. tegra114_mc_flush E mc hotreset w = Some (0, w')))
      \<and> ((\<exists>N c. (\<forall>h. N \<le> length h \<longrightarrow> reg_value E h MC (hr_status hr) = c)
                 \<and> bit c (unat (hr_bit hr)))
           \<longrightarrow> (\<exists>w'. tegra114_mc_flush E mc hotreset w = Some (0, w'))))"
proof (intro conjI impI)
  assume "mc = NULL \<or> hotreset = None"
  then show "tegra114_mc_flush E mc hotreset w = Some (- EINVAL, w)"
    and "tegra114_mc_flush_done E mc hotreset w = (- EINVAL, w)"
    by (auto simp: tegra114_mc_flush_def tegra114_mc_flush_done_def split: option.splits)
next
  assume a: "mc \<noteq> NULL \<and> hotreset = Some hr"
  then show "tegra114_mc_flush_done E mc hotreset w =
          (0, w\<lparr>trace := trace w @ hotreset_request E hr False (trace w) @ [MutexUnlock MC]\<rparr>)"
    by (simp add: tegra114_mc_flush_done_def hotreset_request_def Let_def mutex_lock_def
          mutex_unlock_def mc_readl_eq mc_writel_def writel_def emit_def)
  from a show "tegra114_mc_flush E mc hotreset w = None
           \<or> (\<exists>w'. tegra114_mc_flush E mc hotreset w = Some (0, w'))"
    by (simp add: flush_start split: option.splits)
  assume "\<exists>N c. (\<forall>h. N \<le> length h \<longrightarrow> reg_value E h MC (hr_status hr) = c)
                 \<and> bit c (unat (hr_bit hr))"
  then obtain N c where "\<forall>h. N \<le> length h \<longrightarrow> reg_value E h MC (hr_status hr) = c"
      "c AND BIT (unat (hr_bit hr)) \<noteq> 0"
    by (auto simp: and_BIT_nonzero)
  from mc_flush_poll_settles[OF this] a
  show "\<exists>w'. tegra114_mc_flush E mc hotreset w = Some (0, w')"
    by (simp add: flush_start split: option.splits)
qed

theorem hotreset_invalid_argument_only_witness:
  "tegra114_mc_flush_done settled_env (PTR 1) (Some example_hotreset) boot =
     (0, \<lparr>trace = [MutexLock MC, RegRead MC 0x200 2, RegWrite MC 0 0x200, RegRead MC 0x200 2,
                    MutexUnlock MC], now = 0\<rparr>)
   \<and> (\<exists>w'. tegra114_mc_flush settled_env (PTR 1) (Some example_hotreset) boot = Some (0, w'))
   \<and> tegra114_mc_flush settled_env NULL (Some example_hotreset) boot = Some (- EINVAL, boot)"
proof -
  have s: "\<exists>N c. (\<forall>h. N \<le> length h \<longrightarrow> reg_value settled_env h MC (hr_status example_hotreset) = c)
                 \<and> bit c (unat (hr_bit example_hotreset))"
    by (rule exI[of _ 0], rule exI[of _ 2]) (simp add: settled_env_def example_hotreset_def)
  show ?thesis
    using s
      hotreset_invalid_argument_only
        [of "PTR 1" "Some example_hotreset" settled_env boot example_hotreset]
      hotreset_invalid_argument_only
        [of NULL "Some example_hotreset" settled_env boot example_hotreset]
    by (simp add: hotreset_request_def settled_env_def example_hotreset_def boot_def BIT_def Let_def)
qed

text \<open>
  C5. When flush returns, it returns 0 and its trace is: the request, then attempts
  that were rejected (each a delay of 10 microseconds followed by two to six reads of
  the status register that were not stable, or were stable with the target bit
  clear), then one last attempt: the delay and six reads of the status register with
  the same value, whose target bit is set (the reference read and the five reads
  compared with it), then the unlock. So convergence is reported only after five
  consecutive identical reads with the target bit set.
\<close>

theorem flush_needs_stable_reads:
  assumes "mc \<noteq> NULL" and "tegra114_mc_flush E mc (Some hr) w = Some (r, w')"
  shows "r = 0
       \<and> (\<exists>rounds v.
             trace w' = trace w @ hotreset_request E hr True (trace w)
                        @ concat (map (hotreset_round (hr_status hr)) rounds)
                        @ hotreset_round (hr_status hr) (replicate 6 v) @ [MutexUnlock MC]
           \<and> bit v (unat (hr_bit hr))
           \<and> (\<forall>vs\<in>set rounds. rejected_reads (unat (hr_bit hr)) vs)
           \<and> (\<exists>pre. trace w' = pre @ replicate 5 (RegRead MC (hr_status hr) v) @ [MutexUnlock MC]))"
proof -
  let ?w4 = "w\<lparr>trace := trace w @ hotreset_request E hr True (trace w)\<rparr>"
  from assms obtain w5 where p: "mc_flush_poll E hr ?w4 = Some w5"
    and r: "r = 0" and w': "w' = mutex_unlock MC w5"
    by (auto simp: flush_start split: option.splits)
  from mc_flush_poll_spec[OF p] obtain rounds v where rv:
      "trace w5 = trace ?w4 @ concat (map (hotreset_round (hr_status hr)) rounds)
                          @ hotreset_round (hr_status hr) (replicate 6 v)"
      "v AND BIT (unat (hr_bit hr)) \<noteq> 0"
      "\<forall>vs\<in>set rounds. rejected_reads (unat (hr_bit hr)) vs"
    by blast
  have t: "trace w' = trace w @ hotreset_request E hr True (trace w)
                        @ concat (map (hotreset_round (hr_status hr)) rounds)
                        @ hotreset_round (hr_status hr) (replicate 6 v) @ [MutexUnlock MC]"
    using rv(1) by (simp add: w' mutex_unlock_def)
  have "hotreset_round (hr_status hr) (replicate 6 v)
          = [Udelay 10, RegRead MC (hr_status hr) v] @ replicate 5 (RegRead MC (hr_status hr) v)"
    by (simp add: hotreset_round_def numeral_eq_Suc)
  then have "\<exists>pre. trace w' = pre @ replicate 5 (RegRead MC (hr_status hr) v) @ [MutexUnlock MC]"
    unfolding t
    by (intro exI[of _ "trace w @ hotreset_request E hr True (trace w)
                        @ concat (map (hotreset_round (hr_status hr)) rounds)
                        @ [Udelay 10, RegRead MC (hr_status hr) v]"]) simp
  with r t rv(2,3) show ?thesis
    unfolding and_BIT_nonzero by blast
qed

lemma stable_check_unrolled:
  "tegra114_stable_hotreset_check E reg stat w =
     (let (prv, w1) = mc_readl E reg w;
          (stable, cur, w2) = stable_check_loop E reg prv (Suc (Suc (Suc (Suc (Suc 0))))) 0 w1
      in if stable then (True, cur, w2) else (False, stat, w2))"
  by (simp add: tegra114_stable_hotreset_check_def numeral_eq_Suc)

lemma flush_glitch_example:
  "tegra114_mc_flush glitch_env (PTR 1) (Some example_hotreset) boot = Some (0, glitch_result)"
  unfolding glitch_result_def
  apply (simp add: flush_start hotreset_request_def Let_def)
  apply (subst mc_flush_poll.simps)
  apply (simp add: stable_check_unrolled mc_readl_eq glitch_env_def
      example_hotreset_def boot_def BIT_def quiet_env_def emit_def udelay_def Let_def)
  apply (subst mc_flush_poll.simps)
  apply (simp add: stable_check_unrolled mc_readl_eq glitch_env_def
      example_hotreset_def boot_def BIT_def quiet_env_def emit_def udelay_def Let_def)
  apply (subst mc_flush_poll.simps)
  apply (simp add: stable_check_unrolled mc_readl_eq glitch_env_def
      example_hotreset_def boot_def BIT_def quiet_env_def emit_def udelay_def Let_def mutex_unlock_def)
  done

theorem flush_needs_stable_reads_witness:
  "PTR 1 \<noteq> NULL
   \<and> tegra114_mc_flush glitch_env (PTR 1) (Some example_hotreset) boot = Some (0, glitch_result)
   \<and> (\<exists>rounds v.
         trace glitch_result = hotreset_request glitch_env example_hotreset True []
                        @ concat (map (hotreset_round 0x204) rounds)
                        @ hotreset_round 0x204 (replicate 6 v) @ [MutexUnlock MC]
         \<and> bit v 1 \<and> (\<forall>vs\<in>set rounds. rejected_reads 1 vs))"
proof -
  have n: "PTR 1 \<noteq> NULL" by simp
  from flush_needs_stable_reads[OF n flush_glitch_example]
  obtain rounds v where
    "trace glitch_result = trace boot @ hotreset_request glitch_env example_hotreset True (trace boot)
                        @ concat (map (hotreset_round (hr_status example_hotreset)) rounds)
                        @ hotreset_round (hr_status example_hotreset) (replicate 6 v) @ [MutexUnlock MC]"
    "bit v (unat (hr_bit example_hotreset))"
    "\<forall>vs\<in>set rounds. rejected_reads (unat (hr_bit example_hotreset)) vs"
    by blast
  then have "trace glitch_result = hotreset_request glitch_env example_hotreset True []
                        @ concat (map (hotreset_round 0x204) rounds)
                        @ hotreset_round 0x204 (replicate 6 v) @ [MutexUnlock MC]
         \<and> bit v 1 \<and> (\<forall>vs\<in>set rounds. rejected_reads 1 vs)"
    by (simp add: example_hotreset_def boot_def)
  with n flush_glitch_example show ?thesis by blast
qed

subsection \<open>Polling loops and their bounds\<close>





subsection \<open>Power-off of the always-on partitions\<close>

text \<open>
  The claim C3 as stated, that the error is Unsupported, fails: for the CPU partition
  the result is \<open>-EINVAL\<close>, the spec's InvalidArgument.
\<close>

theorem power_off_always_on_unsupported_counterexample:
  "fst (tegra_pmc_powergate_power_off quiet_env tegra124_pmc_soc
          (example_pg\<lparr>pg_id := word_of_int TEGRA_POWERGATE_CPU\<rparr>) boot) = - EINVAL
   \<and> error_kind_of (fst (tegra_pmc_powergate_power_off quiet_env tegra124_pmc_soc
          (example_pg\<lparr>pg_id := word_of_int TEGRA_POWERGATE_CPU\<rparr>) boot)) \<noteq> Unsupported"
  by (simp add: tegra_pmc_powergate_power_off_def never_turn_off_def error_kind_of_def)

text \<open>
  C3, amended. For every partition in the always-on set (CPU, CPU0 to CPU3, C0NC and
  IRAM), power-off fails with \<open>-EINVAL\<close> (InvalidArgument), whatever the hardware
  reports as the partition's state, and leaves the world as it was: no reset is
  asserted, no clock enabled or disabled, no flush requested, no power gate or
  regulator touched.
\<close>

theorem power_off_always_on_rejected:
  assumes "pg_id pg \<in> word_of_int ` {TEGRA_POWERGATE_CPU, TEGRA_POWERGATE_CPU1,
             TEGRA_POWERGATE_CPU2, TEGRA_POWERGATE_CPU3, TEGRA_POWERGATE_CPU0,
             TEGRA_POWERGATE_C0NC, TEGRA_POWERGATE_IRAM}"
  shows "tegra_pmc_powergate_power_off E soc pg w = (- EINVAL, w)
       \<and> error_kind_of (- EINVAL) = InvalidArgument"
  using assms
  by (auto simp: tegra_pmc_powergate_power_off_def never_turn_off_def error_kind_of_def)

theorem power_off_always_on_rejected_witness:
  "tegra_pmc_powergate_power_off gate_env tegra124_pmc_soc
     (example_pg\<lparr>pg_id := word_of_int TEGRA_POWERGATE_IRAM\<rparr>) boot = (- EINVAL, boot)
   \<and> error_kind_of (- EINVAL) = InvalidArgument"
  using power_off_always_on_rejected
    [of "example_pg\<lparr>pg_id := word_of_int TEGRA_POWERGATE_IRAM\<rparr>" gate_env tegra124_pmc_soc boot]
  by simp

subsection \<open>The power-on sequence\<close>

lemma call_int_eq:
  "call_int E f p w = (int_result E (trace w) f p, emit (IntCall f p (int_result E (trace w) f p)) w)"
  by (simp add: call_int_def Let_def)

lemma call_each_success:
  "call_each E f ps w = (0, w') \<Longrightarrow>
     trace w' = trace w @ map (\<lambda>p. IntCall f p 0) ps \<and> now w' = now w"
proof (induction ps arbitrary: w)
  case Nil
  then show ?case by simp
next
  case (Cons p ps)
  let ?r = "int_result E (trace w) f p"
  from Cons.prems have r: "?r = 0" and rec: "call_each E f ps (emit (IntCall f p ?r) w) = (0, w')"
    by (auto simp: call_int_eq split: if_splits)
  from Cons.IH[OF rec] r show ?case by simp
qed

lemma call_each_failure:
  "call_each E f ps w = (r, w') \<Longrightarrow> r \<noteq> 0 \<Longrightarrow>
     \<exists>k<length ps. trace w' = trace w @ map (\<lambda>p. IntCall f p 0) (take k ps) @ [IntCall f (ps ! k) r]"
proof (induction ps arbitrary: w)
  case Nil
  then show ?case by simp
next
  case (Cons p ps)
  let ?r = "int_result E (trace w) f p"
  show ?case
  proof (cases "?r = 0")
    case False
    with Cons.prems have "r = ?r" "w' = emit (IntCall f p ?r) w"
      by (auto simp: call_int_eq)
    then show ?thesis by (intro exI[of _ 0]) simp
  next
    case True
    with Cons.prems have rec: "call_each E f ps (emit (IntCall f p 0) w) = (r, w')"
      by (auto simp: call_int_eq)
    from Cons.IH[OF rec Cons.prems(2)] obtain k where "k < length ps"
      "trace w' = trace (emit (IntCall f p 0) w) @ map (\<lambda>p. IntCall f p 0) (take k ps) @ [IntCall f (ps ! k) r]"
      by blast
    then show ?thesis by (intro exI[of _ "Suc k"]) simp
  qed
qed

lemma clk_disable_all_trace:
  "trace (clk_disable_all cs w) = trace w @ map (VoidCall clk_disable_unprepare) cs
   \<and> now (clk_disable_all cs w) = now w"
  by (induction cs arbitrary: w) (simp_all add: call_void_def)

lemma enable_clocks_loop_success:
  "enable_clocks_loop E enabled cs w = (0, w') \<Longrightarrow>
     trace w' = trace w @ map (\<lambda>c. IntCall clk_prepare_enable c 0) cs \<and> now w' = now w"
proof (induction cs arbitrary: w enabled)
  case Nil
  then show ?case by simp
next
  case (Cons c cs)
  let ?r = "int_result E (trace w) clk_prepare_enable c"
  from Cons.prems have r: "?r = 0"
    and rec: "enable_clocks_loop E (c # enabled) cs (emit (IntCall clk_prepare_enable c ?r) w) = (0, w')"
    by (auto simp: call_int_eq split: if_splits)
  from Cons.IH[OF rec] r show ?case by simp
qed

lemma enable_clocks_loop_failure:
  "enable_clocks_loop E enabled cs w = (r, w') \<Longrightarrow> r \<noteq> 0 \<Longrightarrow>
     \<exists>k<length cs. trace w' = trace w @ map (\<lambda>c. IntCall clk_prepare_enable c 0) (take k cs)
        @ [IntCall clk_prepare_enable (cs ! k) r]
        @ map (VoidCall clk_disable_unprepare) (rev (take k cs) @ enabled)"
proof (induction cs arbitrary: w enabled)
  case Nil
  then show ?case by simp
next
  case (Cons c cs)
  let ?r = "int_result E (trace w) clk_prepare_enable c"
  show ?case
  proof (cases "?r = 0")
    case False
    with Cons.prems have "r = ?r" "w' = clk_disable_all enabled (emit (IntCall clk_prepare_enable c ?r) w)"
      by (auto simp: call_int_eq)
    then show ?thesis by (intro exI[of _ 0]) (simp add: clk_disable_all_trace)
  next
    case True
    with Cons.prems have rec:
      "enable_clocks_loop E (c # enabled) cs (emit (IntCall clk_prepare_enable c 0) w) = (r, w')"
      by (auto simp: call_int_eq)
    from Cons.IH[OF rec Cons.prems(2)] obtain k where "k < length cs"
      "trace w' = trace (emit (IntCall clk_prepare_enable c 0) w)
         @ map (\<lambda>c. IntCall clk_prepare_enable c 0) (take k cs)
         @ [IntCall clk_prepare_enable (cs ! k) r]
         @ map (VoidCall clk_disable_unprepare) (rev (take k cs) @ c # enabled)"
      by blast
    then show ?thesis by (intro exI[of _ "Suc k"]) simp
  qed
qed

lemma get_regulator_keeps:
  "tegra_powergate_get_regulator E pg w = (r, pg', w') \<Longrightarrow>
     pg_id pg' = pg_id pg \<and> clk pg' = clk pg \<and> reset pg' = reset pg \<and> swgroup pg' = swgroup pg
     \<and> is_vdd pg' = is_vdd pg"
  by (auto simp: tegra_powergate_get_regulator_def Let_def call_ptr_def split: if_splits)

lemma power_supply_on_eq:
  "(if is_vdd pg then
               (let (err, pg, w) = tegra_powergate_get_regulator E pg w in
                if err = 0 then
                  (let (err, w) = call_int E regulator_enable (vdd pg) w in (err, pg, w))
                else (err, pg, w))
             else
               (let (err, w) = tegra_pmc_powergate_set E pg True w in (err, pg, w)))
   = power_supply_on E pg w"
proof (cases "is_vdd pg")
  case False
  then show ?thesis by (simp add: power_supply_on_def)
next
  case True
  obtain r pg' w' where g: "tegra_powergate_get_regulator E pg w = (r, pg', w')"
    by (cases "tegra_powergate_get_regulator E pg w") auto
  show ?thesis
    using True g by (cases "r = 0") (simp_all add: power_supply_on_def)
qed

lemma power_supply_on_id: "pg_id (fst (snd (power_supply_on E pg w))) = pg_id pg"
proof (cases "is_vdd pg")
  case False
  then show ?thesis by (simp add: power_supply_on_def split_def)
next
  case True
  obtain r pg' w' where g: "tegra_powergate_get_regulator E pg w = (r, pg', w')"
    by (cases "tegra_powergate_get_regulator E pg w") auto
  from get_regulator_keeps[OF g] True g show ?thesis
    by (cases "r = 0") (simp_all add: power_supply_on_def split_def)
qed

lemma power_on_refines_steps:
  "tegra_pmc_powergate_power_on E soc pg0 w0 = run_steps (power_on_steps E soc pg0) pg0 w0"
proof -
  let ?pcie = "pg_id pg0 \<noteq> word_of_int TEGRA_POWERGATE_PCIE"
  define G :: step where "G = (\<lambda>pg w.
      let w = udelay 10 w;
          w = (if pg_id pg \<noteq> word_of_int TEGRA_POWERGATE_PCIE
               then tegra_pmc_powergate_disable_clocks pg w else w)
      in (0, pg, w))"
  define F :: step where "F = (\<lambda>pg w.
      let w = udelay 10 w;
          (err, w) = tegra_pmc_powergate_mc_flush_done E pg w
      in if err \<noteq> 0 then (err, pg, w) else G pg w)"
  define D :: step where "D = (\<lambda>pg w.
      let w = udelay 10 w;
          (err, w) = tegra_pmc_powergate_reset_deassert E pg w
      in if err \<noteq> 0 then (err, pg, w) else F pg w)"
  define C :: step where "C = (\<lambda>pg w.
      let (err, w) = tegra_powergate_remove_clamping (Some soc) (sint (pg_id pg)) w
      in if err \<noteq> 0 then (err, pg, w) else D pg w)"
  define B :: step where "B = (\<lambda>pg w.
      let (err, w) =
            (if pg_id pg \<noteq> word_of_int TEGRA_POWERGATE_PCIE then
               (let (err, w) = tegra_pmc_powergate_enable_clocks E pg w in
                if err \<noteq> 0 then (err, w) else (0, udelay 10 w))
             else (0, w))
      in if err \<noteq> 0 then (err, pg, w) else C pg w)"
  define A :: step where "A = (\<lambda>pg w.
      let w = udelay 10 w;
          (err, w) =
            (if is_legacy_powergate soc then
               (let (err, w) = tegra_pmc_powergate_reset_assert E pg w in
                if err \<noteq> 0 then (err, w) else (0, udelay 10 w))
             else (0, w))
      in if err \<noteq> 0 then (err, pg, w) else B pg w)"
  define tG where "tG = (settle_delay, never) # (if ?pcie then [(disable_clocks_step, never)] else [])"
  define tF where "tF = (settle_delay, never)
      # (on_world (tegra_pmc_powergate_mc_flush_done E), nonzero) # tG"
  define tD where "tD = (settle_delay, never)
      # (on_world (tegra_pmc_powergate_reset_deassert E), nonzero) # tF"
  define tC where "tC =
      (on_world (\<lambda>pg. tegra_powergate_remove_clamping (Some soc) (sint (pg_id pg))), nonzero) # tD"
  define tB where "tB = (if ?pcie
        then [(on_world (tegra_pmc_powergate_enable_clocks E), nonzero), (settle_delay, never)]
        else []) @ tC"
  define tA where "tA = (settle_delay, never) # (if is_legacy_powergate soc
        then [(on_world (tegra_pmc_powergate_reset_assert E), nonzero), (settle_delay, never)]
        else []) @ tB"
  have code: "tegra_pmc_powergate_power_on E soc pg0 w0 =
      (let (err, pg, w) = power_supply_on E pg0 w0 in if err < 0 then (err, pg, w) else A pg w)"
    unfolding tegra_pmc_powergate_power_on_def power_supply_on_eq A_def B_def C_def D_def F_def G_def
    by (rule refl)
  have steps: "power_on_steps E soc pg0 = (power_supply_on E, negative) # tA"
    by (simp add: power_on_steps_def tA_def tB_def tC_def tD_def tF_def tG_def)
  have g: "G pg w = run_steps tG pg w" if "pg_id pg = pg_id pg0" for pg w
    using that
    by (simp add: G_def tG_def settle_delay_def disable_clocks_step_def never_def Let_def)
  have f: "F pg w = run_steps tF pg w" if "pg_id pg = pg_id pg0" for pg w
    using g[OF that]
    by (simp add: F_def tF_def settle_delay_def on_world_def never_def nonzero_def Let_def
          split: prod.splits)
  have d: "D pg w = run_steps tD pg w" if "pg_id pg = pg_id pg0" for pg w
    using f[OF that]
    by (simp add: D_def tD_def settle_delay_def on_world_def never_def nonzero_def Let_def
          split: prod.splits)
  have c: "C pg w = run_steps tC pg w" if "pg_id pg = pg_id pg0" for pg w
    using d[OF that]
    by (simp add: C_def tC_def on_world_def nonzero_def Let_def split: prod.splits)
  have b: "B pg w = run_steps tB pg w" if "pg_id pg = pg_id pg0" for pg w
  proof (cases ?pcie)
    case False
    then show ?thesis
      using c[OF that] that by (simp add: B_def tB_def)
  next
    case True
    obtain e w1 where en: "tegra_pmc_powergate_enable_clocks E pg w = (e, w1)"
      by (cases "tegra_pmc_powergate_enable_clocks E pg w")
    show ?thesis
    proof (cases "e = 0")
      case e0: True
      then show ?thesis
        using True that en c[OF that, of "udelay 10 w1"]
        by (simp add: B_def tB_def settle_delay_def on_world_def never_def nonzero_def)
    next
      case e1: False
      then show ?thesis
        using True that en
        by (simp add: B_def tB_def settle_delay_def on_world_def never_def nonzero_def)
    qed
  qed
  have a: "A pg w = run_steps tA pg w" if "pg_id pg = pg_id pg0" for pg w
  proof (cases "is_legacy_powergate soc")
    case False
    then show ?thesis
      using b[OF that, of "udelay 10 w"]
      by (simp add: A_def tA_def settle_delay_def never_def)
  next
    case True
    obtain e w1 where en: "tegra_pmc_powergate_reset_assert E pg (udelay 10 w) = (e, w1)"
      by (cases "tegra_pmc_powergate_reset_assert E pg (udelay 10 w)")
    show ?thesis
    proof (cases "e = 0")
      case e0: True
      then show ?thesis
        using True en b[OF that, of "udelay 10 w1"]
        by (simp add: A_def tA_def settle_delay_def on_world_def never_def nonzero_def)
    next
      case e1: False
      then show ?thesis
        using True en
        by (simp add: A_def tA_def settle_delay_def on_world_def never_def nonzero_def)
    qed
  qed
  obtain r1 pg1 w1 where s1: "power_supply_on E pg0 w0 = (r1, pg1, w1)"
    by (cases "power_supply_on E pg0 w0") auto
  have "pg_id pg1 = pg_id pg0"
    using power_supply_on_id[of E pg0 w0] s1 by simp
  from a[OF this, of w1] show ?thesis
    unfolding code steps using s1 by (simp add: negative_def)
qed

lemma run_steps_append_success:
  assumes "run_steps (xs @ ys) pg w = (0, pg', w')"
      and "\<forall>(s, f)\<in>set xs. \<forall>r. f r \<longrightarrow> r \<noteq> 0"
  shows "\<exists>pg1 w1. run_steps xs pg w = (0, pg1, w1) \<and> run_steps ys pg1 w1 = (0, pg', w')"
  using assms
proof (induction xs arbitrary: pg w)
  case Nil
  then show ?case by simp
next
  case (Cons x xs)
  obtain s f where x: "x = (s, f)" by (cases x)
  obtain r pg1 w1 where s: "s pg w = (r, pg1, w1)" by (cases "s pg w") auto
  have nf: "\<not> f r"
  proof
    assume "f r"
    with Cons.prems x s show False by auto
  qed
  with Cons.prems x s have rec: "run_steps (xs @ ys) pg1 w1 = (0, pg', w')" by simp
  from Cons.prems(2) have "\<forall>(s, f)\<in>set xs. \<forall>r. f r \<longrightarrow> r \<noteq> 0" by simp
  from Cons.IH[OF rec this] x s nf show ?case by simp
qed

lemma tests_nonzero [simp]:
  "negative r \<Longrightarrow> r \<noteq> 0" "nonzero r \<Longrightarrow> r \<noteq> 0" "\<not> never r"
  by (simp_all add: negative_def nonzero_def never_def)

lemma remove_clamping_success:
  assumes "tegra_powergate_remove_clamping soc ident w = (0, w')"
  shows "\<exists>v offset. (offset = GPU_RG_CNTRL \<or> offset = REMOVE_CLAMPING)
           \<and> trace w' = trace w @ [RegWrite PMC v offset] \<and> now w' = now w"
proof (cases soc)
  case None
  with assms show ?thesis by (simp add: tegra_powergate_remove_clamping_def EINVAL_def)
next
  case (Some s)
  with assms show ?thesis
    by (auto simp: tegra_powergate_remove_clamping_def EINVAL_def tegra_pmc_writel_def
          writel_def Let_def split: if_splits)
qed

lemma powergate_set_extends:
  "\<exists>evs. trace (snd (tegra_pmc_powergate_set E pg on w)) = trace w @ evs"
proof -
  let ?st = "reg_value E (trace w @ [MutexLock PMC]) PMC PWRGATE_STATUS"
  let ?w2 = "emit (RegRead PMC PWRGATE_STATUS ?st) (emit (MutexLock PMC) w)"
  let ?w3 = "emit (RegWrite PMC (PWRGATE_TOGGLE_START OR pg_id pg) PWRGATE_TOGGLE) ?w2"
  let ?msk = "if on then BIT (unat (pg_id pg)) else 0"
  obtain err w4 where poll:
    "powergate_set_poll E (pg_id pg) ?msk (now w + 50000) ?w3 = (err, w4)"
    by (cases "powergate_set_poll E (pg_id pg) ?msk (now w + 50000) ?w3")
  from powergate_set_poll_spec[OF poll] obtain evs where e: "trace w4 = trace ?w3 @ evs"
    by auto
  show ?thesis
  proof (cases "on = (?st AND BIT (unat (pg_id pg)) \<noteq> 0)")
    case True
    then show ?thesis
      by (simp add: tegra_pmc_powergate_set_def Let_def mutex_lock_def mutex_unlock_def
            tegra_pmc_readl_eq split del: if_split)
  next
    case False
    then show ?thesis
      using poll e
      by (simp add: tegra_pmc_powergate_set_def Let_def mutex_lock_def mutex_unlock_def
            tegra_pmc_readl_eq tegra_pmc_writel_def writel_def jiffies_def msecs_to_jiffies_def
            split del: if_split)
  qed
qed

lemma get_regulator_extends:
  "tegra_powergate_get_regulator E pg w = (r, pg', w') \<Longrightarrow> \<exists>evs. trace w' = trace w @ evs"
  by (auto simp: tegra_powergate_get_regulator_def Let_def call_ptr_def split: if_splits)

lemma power_supply_on_extends:
  assumes "power_supply_on E pg w = (r, pg', w')"
  shows "\<exists>evs. trace w' = trace w @ evs"
proof (cases "is_vdd pg")
  case False
  with assms powergate_set_extends[of E pg True w] show ?thesis
    by (auto simp: power_supply_on_def split: prod.splits)
next
  case True
  obtain r1 pg1 w1 where g: "tegra_powergate_get_regulator E pg w = (r1, pg1, w1)"
    by (cases "tegra_powergate_get_regulator E pg w") auto
  from get_regulator_extends[OF g] obtain evs where "trace w1 = trace w @ evs" by blast
  with True g assms show ?thesis
    by (cases "r1 = 0") (auto simp: power_supply_on_def call_int_eq)
qed

lemma step_then_settle:
  assumes "run_steps [(on_world f, nonzero), (settle_delay, never)] pg w = (0, pg1, w1)"
  shows "\<exists>w2. f pg w = (0, w2) \<and> pg1 = pg \<and> w1 = udelay 10 w2"
proof -
  obtain r w2 where f: "f pg w = (r, w2)" by (cases "f pg w")
  with assms show ?thesis
    by (cases "r = 0") (simp_all add: on_world_def settle_delay_def nonzero_def)
qed

lemma release_steps_success:
  assumes "run_steps
     [(on_world (\<lambda>pg. tegra_powergate_remove_clamping (Some soc) (sint (pg_id pg))), nonzero),
      (settle_delay, never),
      (on_world (tegra_pmc_powergate_reset_deassert E), nonzero), (settle_delay, never),
      (on_world (tegra_pmc_powergate_mc_flush_done E), nonzero), (settle_delay, never)]
     pg w = (0, pg1, w1)"
  shows "pg1 = pg \<and> (\<exists>v offset. (offset = GPU_RG_CNTRL \<or> offset = REMOVE_CLAMPING) \<and>
     trace w1 = trace w @ [RegWrite PMC v offset, Udelay 10]
        @ map (\<lambda>p. IntCall reset_control_deassert p 0) (bundle_entries MAX_RESET_NUM (reset pg))
        @ [Udelay 10]
        @ map (\<lambda>p. IntCall tegra_mc_flush_done p 0) (bundle_entries MAX_SWGROUP_NUM (swgroup pg))
        @ [Udelay 10])"
proof -
  let ?s1 = "[(on_world (\<lambda>pg. tegra_powergate_remove_clamping (Some soc) (sint (pg_id pg))), nonzero),
      (settle_delay, never)]"
  let ?s2 = "[(on_world (tegra_pmc_powergate_reset_deassert E), nonzero), (settle_delay, never)]"
  let ?s3 = "[(on_world (tegra_pmc_powergate_mc_flush_done E), nonzero), (settle_delay, never)]"
  from assms have "run_steps (?s1 @ ?s2 @ ?s3) pg w = (0, pg1, w1)" by simp
  from run_steps_append_success[OF this] obtain pa wa where
    a: "run_steps ?s1 pg w = (0, pa, wa)" and ra: "run_steps (?s2 @ ?s3) pa wa = (0, pg1, w1)"
    by auto
  from run_steps_append_success[OF ra] obtain pb wb where
    b: "run_steps ?s2 pa wa = (0, pb, wb)" and c: "run_steps ?s3 pb wb = (0, pg1, w1)"
    by auto
  from step_then_settle[OF a] obtain w2 where
    a': "tegra_powergate_remove_clamping (Some soc) (sint (pg_id pg)) w = (0, w2)"
      "pa = pg" "wa = udelay 10 w2" by blast
  from step_then_settle[OF b] obtain w3 where
    b': "tegra_pmc_powergate_reset_deassert E pa wa = (0, w3)" "pb = pa" "wb = udelay 10 w3"
    by blast
  from step_then_settle[OF c] obtain w4 where
    c': "tegra_pmc_powergate_mc_flush_done E pb wb = (0, w4)" "pg1 = pb" "w1 = udelay 10 w4"
    by blast
  from remove_clamping_success[OF a'(1)] obtain v offset where
    cl: "offset = GPU_RG_CNTRL \<or> offset = REMOVE_CLAMPING"
      "trace w2 = trace w @ [RegWrite PMC v offset]" by blast
  from b'(1) have t3: "trace w3 = trace wa
        @ map (\<lambda>p. IntCall reset_control_deassert p 0) (bundle_entries MAX_RESET_NUM (reset pg))"
    unfolding tegra_pmc_powergate_reset_deassert_def a'(2) by (rule call_each_success[THEN conjunct1])
  from c'(1) have t4: "trace w4 = trace wb
        @ map (\<lambda>p. IntCall tegra_mc_flush_done p 0) (bundle_entries MAX_SWGROUP_NUM (swgroup pg))"
    unfolding tegra_pmc_powergate_mc_flush_done_def b'(2) a'(2) by (rule call_each_success[THEN conjunct1])
  have "trace w1 = trace w @ [RegWrite PMC v offset, Udelay 10]
        @ map (\<lambda>p. IntCall reset_control_deassert p 0) (bundle_entries MAX_RESET_NUM (reset pg))
        @ [Udelay 10]
        @ map (\<lambda>p. IntCall tegra_mc_flush_done p 0) (bundle_entries MAX_SWGROUP_NUM (swgroup pg))
        @ [Udelay 10]"
    using cl(2) t3 t4 a'(3) b'(3) c'(3) by simp
  with cl(1) a'(2) b'(2) c'(2) show ?thesis by blast
qed

lemma power_on_success_trace:
  assumes "tegra_pmc_powergate_power_on E soc pg w = (0, pg', w')"
  shows "\<exists>pwr v offset.
       (\<exists>r w1. power_supply_on E pg w = (r, pg', w1) \<and> 0 \<le> r \<and> trace w1 = trace w @ pwr)
     \<and> (offset = GPU_RG_CNTRL \<or> offset = REMOVE_CLAMPING)
     \<and> trace w' = trace w @ pwr @ [Udelay 10]
        @ (if is_legacy_powergate soc
           then map (\<lambda>p. IntCall reset_control_assert p 0) (bundle_entries MAX_RESET_NUM (reset pg'))
                @ [Udelay 10]
           else [])
        @ (if pg_id pg \<noteq> word_of_int TEGRA_POWERGATE_PCIE
           then map (\<lambda>c. IntCall clk_prepare_enable c 0) (bundle_entries MAX_CLK_NUM (clk pg'))
                @ [Udelay 10]
           else [])
        @ [RegWrite PMC v offset, Udelay 10]
        @ map (\<lambda>p. IntCall reset_control_deassert p 0) (bundle_entries MAX_RESET_NUM (reset pg'))
        @ [Udelay 10]
        @ map (\<lambda>p. IntCall tegra_mc_flush_done p 0) (bundle_entries MAX_SWGROUP_NUM (swgroup pg'))
        @ [Udelay 10]
        @ (if pg_id pg \<noteq> word_of_int TEGRA_POWERGATE_PCIE
           then map (VoidCall clk_disable_unprepare) (bundle_entries MAX_CLK_NUM (clk pg'))
           else [])"
proof -
  let ?s1 = "[(power_supply_on E, negative), (settle_delay, never)]"
  let ?s2 = "if is_legacy_powergate soc
        then [(on_world (tegra_pmc_powergate_reset_assert E), nonzero), (settle_delay, never)]
        else []"
  let ?s3 = "if pg_id pg \<noteq> word_of_int TEGRA_POWERGATE_PCIE
        then [(on_world (tegra_pmc_powergate_enable_clocks E), nonzero), (settle_delay, never)]
        else []"
  let ?s4 = "[(on_world (\<lambda>pg. tegra_powergate_remove_clamping (Some soc) (sint (pg_id pg))), nonzero),
        (settle_delay, never),
        (on_world (tegra_pmc_powergate_reset_deassert E), nonzero), (settle_delay, never),
        (on_world (tegra_pmc_powergate_mc_flush_done E), nonzero), (settle_delay, never)]"
  let ?s5 = "if pg_id pg \<noteq> word_of_int TEGRA_POWERGATE_PCIE
        then [(disable_clocks_step, never)] else []"
  have "run_steps (?s1 @ ?s2 @ ?s3 @ ?s4 @ ?s5) pg w = (0, pg', w')"
    using assms unfolding power_on_refines_steps power_on_steps_def .
  from run_steps_append_success[OF this] obtain p1 w1 where
    s1: "run_steps ?s1 pg w = (0, p1, w1)"
    and r1: "run_steps (?s2 @ ?s3 @ ?s4 @ ?s5) p1 w1 = (0, pg', w')" by auto
  have c2: "\<forall>(s, f)\<in>set ?s2. \<forall>r. f r \<longrightarrow> r \<noteq> 0"
    by (auto simp: nonzero_def)
  have c3: "\<forall>(s, f)\<in>set ?s3. \<forall>r. f r \<longrightarrow> r \<noteq> 0"
    by (auto simp: nonzero_def)
  from run_steps_append_success[OF r1 c2] obtain p2 w2 where
    s2: "run_steps ?s2 p1 w1 = (0, p2, w2)"
    and r2: "run_steps (?s3 @ ?s4 @ ?s5) p2 w2 = (0, pg', w')" by blast
  from run_steps_append_success[OF r2 c3] obtain p3 w3 where
    s3: "run_steps ?s3 p2 w2 = (0, p3, w3)"
    and r3: "run_steps (?s4 @ ?s5) p3 w3 = (0, pg', w')" by blast
  from run_steps_append_success[OF r3] obtain p4 w4 where
    s4: "run_steps ?s4 p3 w3 = (0, p4, w4)"
    and s5: "run_steps ?s5 p4 w4 = (0, pg', w')" by auto
  \<comment> \<open>step 1\<close>
  obtain r pa wa where sup: "power_supply_on E pg w = (r, pa, wa)"
    by (cases "power_supply_on E pg w") auto
  from s1 sup have r: "0 \<le> r" and p1: "p1 = pa" and w1: "w1 = udelay 10 wa"
    by (auto simp: negative_def settle_delay_def split: if_splits)
  from power_supply_on_extends[OF sup] obtain pwr where pwr: "trace wa = trace w @ pwr"
    by blast
  \<comment> \<open>step 3\<close>
  have x2: "p2 = p1 \<and> trace w2 = trace w1 @
        (if is_legacy_powergate soc
           then map (\<lambda>p. IntCall reset_control_assert p 0) (bundle_entries MAX_RESET_NUM (reset p1))
                @ [Udelay 10]
           else [])"
  proof (cases "is_legacy_powergate soc")
    case False
    with s2 show ?thesis by simp
  next
    case True
    with s2 have "run_steps [(on_world (tegra_pmc_powergate_reset_assert E), nonzero),
        (settle_delay, never)] p1 w1 = (0, p2, w2)" by simp
    from step_then_settle[OF this] obtain u where
      u: "tegra_pmc_powergate_reset_assert E p1 w1 = (0, u)" "p2 = p1" "w2 = udelay 10 u" by blast
    from u(1) have "trace u = trace w1
        @ map (\<lambda>p. IntCall reset_control_assert p 0) (bundle_entries MAX_RESET_NUM (reset p1))"
      unfolding tegra_pmc_powergate_reset_assert_def by (rule call_each_success[THEN conjunct1])
    with True u show ?thesis by simp
  qed
  \<comment> \<open>step 4\<close>
  have x3: "p3 = p2 \<and> trace w3 = trace w2 @
        (if pg_id pg \<noteq> word_of_int TEGRA_POWERGATE_PCIE
           then map (\<lambda>c. IntCall clk_prepare_enable c 0) (bundle_entries MAX_CLK_NUM (clk p2))
                @ [Udelay 10]
           else [])"
  proof (cases "pg_id pg \<noteq> word_of_int TEGRA_POWERGATE_PCIE")
    case False
    with s3 show ?thesis by simp
  next
    case True
    with s3 have "run_steps [(on_world (tegra_pmc_powergate_enable_clocks E), nonzero),
        (settle_delay, never)] p2 w2 = (0, p3, w3)" by simp
    from step_then_settle[OF this] obtain u where
      u: "tegra_pmc_powergate_enable_clocks E p2 w2 = (0, u)" "p3 = p2" "w3 = udelay 10 u" by blast
    from u(1) have "trace u = trace w2
        @ map (\<lambda>c. IntCall clk_prepare_enable c 0) (bundle_entries MAX_CLK_NUM (clk p2))"
      unfolding tegra_pmc_powergate_enable_clocks_def
      by (rule enable_clocks_loop_success[THEN conjunct1])
    with True u show ?thesis by simp
  qed
  \<comment> \<open>steps 5 to 7\<close>
  from release_steps_success[OF s4] obtain v offset where
    x4: "p4 = p3" "offset = GPU_RG_CNTRL \<or> offset = REMOVE_CLAMPING"
      "trace w4 = trace w3 @ [RegWrite PMC v offset, Udelay 10]
        @ map (\<lambda>p. IntCall reset_control_deassert p 0) (bundle_entries MAX_RESET_NUM (reset p3))
        @ [Udelay 10]
        @ map (\<lambda>p. IntCall tegra_mc_flush_done p 0) (bundle_entries MAX_SWGROUP_NUM (swgroup p3))
        @ [Udelay 10]"
    by blast
  \<comment> \<open>step 8\<close>
  have x5: "pg' = p4 \<and> trace w' = trace w4 @
        (if pg_id pg \<noteq> word_of_int TEGRA_POWERGATE_PCIE
           then map (VoidCall clk_disable_unprepare) (bundle_entries MAX_CLK_NUM (clk p4))
           else [])"
    using s5
    by (auto simp: disable_clocks_step_def tegra_pmc_powergate_disable_clocks_def
          clk_disable_all_trace split: if_splits)
  have pg: "pg' = pa" using x5 x4(1) x3 x2 p1 by simp
  have tr: "trace w' = trace w @ pwr @ [Udelay 10]
        @ (if is_legacy_powergate soc
           then map (\<lambda>p. IntCall reset_control_assert p 0) (bundle_entries MAX_RESET_NUM (reset pg'))
                @ [Udelay 10]
           else [])
        @ (if pg_id pg \<noteq> word_of_int TEGRA_POWERGATE_PCIE
           then map (\<lambda>c. IntCall clk_prepare_enable c 0) (bundle_entries MAX_CLK_NUM (clk pg'))
                @ [Udelay 10]
           else [])
        @ [RegWrite PMC v offset, Udelay 10]
        @ map (\<lambda>p. IntCall reset_control_deassert p 0) (bundle_entries MAX_RESET_NUM (reset pg'))
        @ [Udelay 10]
        @ map (\<lambda>p. IntCall tegra_mc_flush_done p 0) (bundle_entries MAX_SWGROUP_NUM (swgroup pg'))
        @ [Udelay 10]
        @ (if pg_id pg \<noteq> word_of_int TEGRA_POWERGATE_PCIE
           then map (VoidCall clk_disable_unprepare) (bundle_entries MAX_CLK_NUM (clk pg'))
           else [])"
    using x5 x4 x3 x2 p1 w1 pwr pg by simp
  have "\<exists>r w1. power_supply_on E pg w = (r, pg', w1) \<and> 0 \<le> r \<and> trace w1 = trace w @ pwr"
    using sup r pwr pg by blast
  with x4(2) tr show ?thesis by blast
qed

lemma example_bundles:
  "bundle_entries MAX_CLK_NUM (clk example_pg) = [PTR 10, PTR 11]"
  "bundle_entries MAX_RESET_NUM (reset example_pg) = [PTR 20]"
  "bundle_entries MAX_SWGROUP_NUM (swgroup example_pg) = [PTR 30, PTR 31]"
  by (simp_all add: bundle_entries_def example_pg_def MAX_CLK_NUM_def MAX_RESET_NUM_def
        MAX_SWGROUP_NUM_def)

lemma power_on_example:
  "tegra_pmc_powergate_power_on gate_env tegra124_pmc_soc example_pg boot =
     (0, example_pg, power_on_example_result)"
proof -
  have id: "pg_id example_pg = 1" "is_vdd example_pg = False"
    by (simp_all add: example_pg_def)
  have s1: "tegra_pmc_powergate_set gate_env example_pg True boot =
     (0, \<lparr>trace = [MutexLock PMC, RegRead PMC PWRGATE_STATUS 0,
                     RegWrite PMC 0x101 PWRGATE_TOGGLE,
                     RegRead PMC PWRGATE_STATUS 2, MutexUnlock PMC], now = 0\<rparr>)"
    by (rule powergate_set_toggle_example)
  have env: "int_result gate_env h f p = 0" for h f p
    by (simp add: gate_env_def quiet_env_def)
  show ?thesis
    unfolding tegra_pmc_powergate_power_on_def
    by (simp add: id s1 env Let_def tegra124_pmc_soc_def TEGRA_POWERGATE_PCIE_def
          tegra_pmc_powergate_enable_clocks_def tegra_pmc_powergate_disable_clocks_def
          tegra_pmc_powergate_reset_deassert_def tegra_pmc_powergate_mc_flush_done_def
          example_bundles call_int_eq call_void_def udelay_def emit_def
          tegra_powergate_remove_clamping_def TEGRA_POWERGATE_3D_def tegra_pmc_writel_def
          writel_def power_on_example_result_def)
qed

text \<open>
  The claim C1 as stated fails in its step 8: after a successful power-on of a domain
  with two clocks, the clocks are disabled in registration order, not in reverse, and
  no settle delay follows that last step.
\<close>

theorem power_on_reverse_disable_counterexample:
  "fst (tegra_pmc_powergate_power_on gate_env tegra124_pmc_soc example_pg boot) = 0
   \<and> bundle_entries MAX_CLK_NUM (clk example_pg) = [PTR 10, PTR 11]
   \<and> clock_disables
        (trace (snd (snd (tegra_pmc_powergate_power_on gate_env tegra124_pmc_soc example_pg boot))))
       = [PTR 10, PTR 11]
   \<and> clock_disables
        (trace (snd (snd (tegra_pmc_powergate_power_on gate_env tegra124_pmc_soc example_pg boot))))
       \<noteq> rev (bundle_entries MAX_CLK_NUM (clk example_pg))
   \<and> last (trace (snd (snd (tegra_pmc_powergate_power_on gate_env tegra124_pmc_soc example_pg boot))))
       \<noteq> Udelay 10"
  by (simp add: power_on_example example_bundles power_on_example_result_def clock_disables_def)

text \<open>
  C1, amended. Power-on runs this fixed sequence of steps, checks the result of each,
  and returns the result of the first that fails at once, undoing nothing: (1) the
  regulator is acquired and enabled for a domain on an external regulator, else the
  partition is switched on (a negative result is the failure); (2) a delay of 10
  microseconds; (3) on chips with legacy sequencing, all resets are asserted in
  registration order, then the delay; (4) unless the domain is PCIE, all clocks are
  enabled in registration order, then the delay; when enabling a clock fails, the
  clocks enabled so far are disabled in reverse order; (5) the clamps are removed, then
  the delay; (6) all resets are de-asserted in registration order, then the delay; (7)
  flush-done is signalled to every client group in registration order, then the delay;
  (8) unless the domain is PCIE, the clocks are disabled in registration order, with
  no delay after it. In steps 3 to 7 a result other than 0 is the failure. The second
  conjunct gives the whole trace of a successful call, the third the unwinding.
\<close>

theorem power_on_step_order:
  "tegra_pmc_powergate_power_on E soc pg w = run_steps (power_on_steps E soc pg) pg w
   \<and> (\<forall>pg' w'. tegra_pmc_powergate_power_on E soc pg w = (0, pg', w') \<longrightarrow>
        (\<exists>pwr v offset.
           (\<exists>r w1. power_supply_on E pg w = (r, pg', w1) \<and> 0 \<le> r \<and> trace w1 = trace w @ pwr)
         \<and> (offset = GPU_RG_CNTRL \<or> offset = REMOVE_CLAMPING)
         \<and> trace w' = trace w @ pwr @ [Udelay 10]
            @ (if is_legacy_powergate soc
               then map (\<lambda>p. IntCall reset_control_assert p 0)
                      (bundle_entries MAX_RESET_NUM (reset pg')) @ [Udelay 10]
               else [])
            @ (if pg_id pg \<noteq> word_of_int TEGRA_POWERGATE_PCIE
               then map (\<lambda>c. IntCall clk_prepare_enable c 0)
                      (bundle_entries MAX_CLK_NUM (clk pg')) @ [Udelay 10]
               else [])
            @ [RegWrite PMC v offset, Udelay 10]
            @ map (\<lambda>p. IntCall reset_control_deassert p 0)
                (bundle_entries MAX_RESET_NUM (reset pg'))
            @ [Udelay 10]
            @ map (\<lambda>p. IntCall tegra_mc_flush_done p 0)
                (bundle_entries MAX_SWGROUP_NUM (swgroup pg'))
            @ [Udelay 10]
            @ (if pg_id pg \<noteq> word_of_int TEGRA_POWERGATE_PCIE
               then map (VoidCall clk_disable_unprepare) (bundle_entries MAX_CLK_NUM (clk pg'))
               else [])))
   \<and> (\<forall>r w'. tegra_pmc_powergate_enable_clocks E pg w = (r, w') \<and> r \<noteq> 0 \<longrightarrow>
        (\<exists>k<length (bundle_entries MAX_CLK_NUM (clk pg)).
           trace w' = trace w
             @ map (\<lambda>c. IntCall clk_prepare_enable c 0) (take k (bundle_entries MAX_CLK_NUM (clk pg)))
             @ [IntCall clk_prepare_enable (bundle_entries MAX_CLK_NUM (clk pg) ! k) r]
             @ map (VoidCall clk_disable_unprepare)
                 (rev (take k (bundle_entries MAX_CLK_NUM (clk pg))))))"
proof (intro conjI allI impI)
  show "tegra_pmc_powergate_power_on E soc pg w = run_steps (power_on_steps E soc pg) pg w"
    by (rule power_on_refines_steps)
next
  fix pg' w'
  assume "tegra_pmc_powergate_power_on E soc pg w = (0, pg', w')"
  then show "\<exists>pwr v offset.
           (\<exists>r w1. power_supply_on E pg w = (r, pg', w1) \<and> 0 \<le> r \<and> trace w1 = trace w @ pwr)
         \<and> (offset = GPU_RG_CNTRL \<or> offset = REMOVE_CLAMPING)
         \<and> trace w' = trace w @ pwr @ [Udelay 10]
            @ (if is_legacy_powergate soc
               then map (\<lambda>p. IntCall reset_control_assert p 0)
                      (bundle_entries MAX_RESET_NUM (reset pg')) @ [Udelay 10]
               else [])
            @ (if pg_id pg \<noteq> word_of_int TEGRA_POWERGATE_PCIE
               then map (\<lambda>c. IntCall clk_prepare_enable c 0)
                      (bundle_entries MAX_CLK_NUM (clk pg')) @ [Udelay 10]
               else [])
            @ [RegWrite PMC v offset, Udelay 10]
            @ map (\<lambda>p. IntCall reset_control_deassert p 0)
                (bundle_entries MAX_RESET_NUM (reset pg'))
            @ [Udelay 10]
            @ map (\<lambda>p. IntCall tegra_mc_flush_done p 0)
                (bundle_entries MAX_SWGROUP_NUM (swgroup pg'))
            @ [Udelay 10]
            @ (if pg_id pg \<noteq> word_of_int TEGRA_POWERGATE_PCIE
               then map (VoidCall clk_disable_unprepare) (bundle_entries MAX_CLK_NUM (clk pg'))
               else [])"
    by (rule power_on_success_trace)
next
  fix r w'
  assume "tegra_pmc_powergate_enable_clocks E pg w = (r, w') \<and> r \<noteq> 0"
  then have "enable_clocks_loop E [] (bundle_entries MAX_CLK_NUM (clk pg)) w = (r, w')" "r \<noteq> 0"
    by (simp_all add: tegra_pmc_powergate_enable_clocks_def)
  from enable_clocks_loop_failure[OF this]
  show "\<exists>k<length (bundle_entries MAX_CLK_NUM (clk pg)).
           trace w' = trace w
             @ map (\<lambda>c. IntCall clk_prepare_enable c 0) (take k (bundle_entries MAX_CLK_NUM (clk pg)))
             @ [IntCall clk_prepare_enable (bundle_entries MAX_CLK_NUM (clk pg) ! k) r]
             @ map (VoidCall clk_disable_unprepare)
                 (rev (take k (bundle_entries MAX_CLK_NUM (clk pg))))"
    by simp
qed

theorem power_on_step_order_witness:
  "tegra_pmc_powergate_power_on gate_env tegra124_pmc_soc example_pg boot
     = (0, example_pg, power_on_example_result)
   \<and> (\<exists>pwr v offset.
         (offset = GPU_RG_CNTRL \<or> offset = REMOVE_CLAMPING)
       \<and> trace power_on_example_result = pwr @ [Udelay 10]
            @ [IntCall clk_prepare_enable (PTR 10) 0, IntCall clk_prepare_enable (PTR 11) 0,
               Udelay 10]
            @ [RegWrite PMC v offset, Udelay 10]
            @ [IntCall reset_control_deassert (PTR 20) 0, Udelay 10]
            @ [IntCall tegra_mc_flush_done (PTR 30) 0, IntCall tegra_mc_flush_done (PTR 31) 0,
               Udelay 10]
            @ [VoidCall clk_disable_unprepare (PTR 10), VoidCall clk_disable_unprepare (PTR 11)])"
proof -
  from power_on_step_order[of gate_env tegra124_pmc_soc example_pg boot]
  have "\<forall>pg' w'. tegra_pmc_powergate_power_on gate_env tegra124_pmc_soc example_pg boot
            = (0, pg', w') \<longrightarrow>
        (\<exists>pwr v offset.
           (\<exists>r w1. power_supply_on gate_env example_pg boot = (r, pg', w1) \<and> 0 \<le> r
                  \<and> trace w1 = trace boot @ pwr)
         \<and> (offset = GPU_RG_CNTRL \<or> offset = REMOVE_CLAMPING)
         \<and> trace w' = trace boot @ pwr @ [Udelay 10]
            @ (if is_legacy_powergate tegra124_pmc_soc
               then map (\<lambda>p. IntCall reset_control_assert p 0)
                      (bundle_entries MAX_RESET_NUM (reset pg')) @ [Udelay 10]
               else [])
            @ (if pg_id example_pg \<noteq> word_of_int TEGRA_POWERGATE_PCIE
               then map (\<lambda>c. IntCall clk_prepare_enable c 0)
                      (bundle_entries MAX_CLK_NUM (clk pg')) @ [Udelay 10]
               else [])
            @ [RegWrite PMC v offset, Udelay 10]
            @ map (\<lambda>p. IntCall reset_control_deassert p 0)
                (bundle_entries MAX_RESET_NUM (reset pg'))
            @ [Udelay 10]
            @ map (\<lambda>p. IntCall tegra_mc_flush_done p 0)
                (bundle_entries MAX_SWGROUP_NUM (swgroup pg'))
            @ [Udelay 10]
            @ (if pg_id example_pg \<noteq> word_of_int TEGRA_POWERGATE_PCIE
               then map (VoidCall clk_disable_unprepare) (bundle_entries MAX_CLK_NUM (clk pg'))
               else []))"
    by blast
  from this[rule_format, OF power_on_example]
  obtain pwr v offset where
    "offset = GPU_RG_CNTRL \<or> offset = REMOVE_CLAMPING"
    "trace power_on_example_result = trace boot @ pwr @ [Udelay 10]
            @ (if is_legacy_powergate tegra124_pmc_soc
               then map (\<lambda>p. IntCall reset_control_assert p 0)
                      (bundle_entries MAX_RESET_NUM (reset example_pg)) @ [Udelay 10]
               else [])
            @ (if pg_id example_pg \<noteq> word_of_int TEGRA_POWERGATE_PCIE
               then map (\<lambda>c. IntCall clk_prepare_enable c 0)
                      (bundle_entries MAX_CLK_NUM (clk example_pg)) @ [Udelay 10]
               else [])
            @ [RegWrite PMC v offset, Udelay 10]
            @ map (\<lambda>p. IntCall reset_control_deassert p 0)
                (bundle_entries MAX_RESET_NUM (reset example_pg))
            @ [Udelay 10]
            @ map (\<lambda>p. IntCall tegra_mc_flush_done p 0)
                (bundle_entries MAX_SWGROUP_NUM (swgroup example_pg))
            @ [Udelay 10]
            @ (if pg_id example_pg \<noteq> word_of_int TEGRA_POWERGATE_PCIE
               then map (VoidCall clk_disable_unprepare) (bundle_entries MAX_CLK_NUM (clk example_pg))
               else [])"
    by blast
  then have "(offset = GPU_RG_CNTRL \<or> offset = REMOVE_CLAMPING)
       \<and> trace power_on_example_result = pwr @ [Udelay 10]
            @ [IntCall clk_prepare_enable (PTR 10) 0, IntCall clk_prepare_enable (PTR 11) 0,
               Udelay 10]
            @ [RegWrite PMC v offset, Udelay 10]
            @ [IntCall reset_control_deassert (PTR 20) 0, Udelay 10]
            @ [IntCall tegra_mc_flush_done (PTR 30) 0, IntCall tegra_mc_flush_done (PTR 31) 0,
               Udelay 10]
            @ [VoidCall clk_disable_unprepare (PTR 10), VoidCall clk_disable_unprepare (PTR 11)]"
    unfolding example_bundles
    by (simp add: tegra124_pmc_soc_def boot_def TEGRA_POWERGATE_PCIE_def example_pg_def)
  with power_on_example show ?thesis by blast
qed

subsection \<open>The power-off sequence\<close>

lemma unregulated_bundles:
  "bundle_entries MAX_CLK_NUM (clk unregulated_pg) = [PTR 10, PTR 11]"
  "bundle_entries MAX_RESET_NUM (reset unregulated_pg) = [PTR 20]"
  "bundle_entries MAX_SWGROUP_NUM (swgroup unregulated_pg) = [PTR 30, PTR 31]"
  "bundle_entries MAX_CLK_NUM (clk regulated_pg) = [PTR 10, PTR 11]"
  "bundle_entries MAX_RESET_NUM (reset regulated_pg) = [PTR 20]"
  "bundle_entries MAX_SWGROUP_NUM (swgroup regulated_pg) = [PTR 30, PTR 31]"
  by (simp_all add: bundle_entries_def unregulated_pg_def regulated_pg_def example_pg_def
        MAX_CLK_NUM_def MAX_RESET_NUM_def MAX_SWGROUP_NUM_def)

lemma not_never_turn_off_1: "\<not> never_turn_off 1"
  by (simp add: never_turn_off_def TEGRA_POWERGATE_CPU_def TEGRA_POWERGATE_CPU0_def
        TEGRA_POWERGATE_CPU1_def TEGRA_POWERGATE_CPU2_def TEGRA_POWERGATE_CPU3_def
        TEGRA_POWERGATE_C0NC_def TEGRA_POWERGATE_IRAM_def)

lemma power_off_unregulated_example:
  "tegra_pmc_powergate_power_off gate_off_env tegra124_pmc_soc unregulated_pg boot =
     (0, power_off_unregulated_result)"
proof -
  have id: "pg_id unregulated_pg = 1" "vdd unregulated_pg = NULL"
    by (simp_all add: unregulated_pg_def example_pg_def)
  have env: "int_result gate_off_env h f p = 0" for h f p
    by (simp add: gate_off_env_def quiet_env_def)
  have rv: "reg_value gate_off_env h b offset = (if reg_writes h = [] then 2 else 0)" for h b offset
    by (simp add: gate_off_env_def)
  have s: "tegra_pmc_powergate_set gate_off_env unregulated_pg False
       \<lparr>trace = tr, now = 40\<rparr> =
     (0, \<lparr>trace = tr @ [MutexLock PMC, RegRead PMC PWRGATE_STATUS 2,
                     RegWrite PMC 0x101 PWRGATE_TOGGLE,
                     RegRead PMC PWRGATE_STATUS 0, MutexUnlock PMC], now = 40\<rparr>)"
    if "reg_writes tr = []" for tr
    using that
    by (simp add: tegra_pmc_powergate_set_def Let_def mutex_lock_def mutex_unlock_def
        tegra_pmc_readl_eq tegra_pmc_writel_def writel_def jiffies_def msecs_to_jiffies_def
        powergate_set_poll.simps time_before_def rv id
        BIT_def emit_def PWRGATE_TOGGLE_START_def)
  show ?thesis
    unfolding tegra_pmc_powergate_power_off_def
    by (simp add: id not_never_turn_off_1 env Let_def tegra124_pmc_soc_def
          tegra_pmc_powergate_enable_clocks_def tegra_pmc_powergate_disable_clocks_def
          tegra_pmc_powergate_reset_assert_def tegra_pmc_powergate_mc_flush_def
          unregulated_bundles call_int_eq call_void_def udelay_def emit_def boot_def
          s reg_writes_def power_off_unregulated_result_def)
qed

lemma power_off_regulated_example:
  "tegra_pmc_powergate_power_off gate_off_env tegra124_pmc_soc regulated_pg boot =
     (0, power_off_regulated_result)"
proof -
  have id: "pg_id regulated_pg = 1" "vdd regulated_pg = PTR 40"
    by (simp_all add: regulated_pg_def example_pg_def)
  have env: "int_result gate_off_env h f p = 0" for h f p
    by (simp add: gate_off_env_def quiet_env_def)
  show ?thesis
    unfolding tegra_pmc_powergate_power_off_def
    by (simp add: id not_never_turn_off_1 env Let_def tegra124_pmc_soc_def
          tegra_pmc_powergate_enable_clocks_def tegra_pmc_powergate_disable_clocks_def
          tegra_pmc_powergate_reset_assert_def tegra_pmc_powergate_mc_flush_def
          unregulated_bundles call_int_eq call_void_def udelay_def emit_def boot_def
          power_off_regulated_result_def)
qed

lemma power_off_refines_steps:
  assumes allowed: "\<not> never_turn_off (pg_id pg0)" and held: "regulator_held pg0"
  shows "tegra_pmc_powergate_power_off E soc pg0 w0 =
           (case run_steps (power_off_steps E soc) pg0 w0 of (r, pg', w') \<Rightarrow> (r, w'))"
proof -
  define R :: "tegra_powergate \<Rightarrow> world \<Rightarrow> int \<times> world" where "R = (\<lambda>pg w.
      let w = udelay 10 w;
          w = (if \<not> is_legacy_powergate soc
               then udelay 10 (tegra_pmc_powergate_disable_clocks pg w) else w);
          (err, w) =
            (if vdd pg \<noteq> NULL then call_int E regulator_disable (vdd pg) w
             else tegra_pmc_powergate_set E pg False w)
      in if err \<noteq> 0 then (err, w) else (0, w))"
  define Q :: "tegra_powergate \<Rightarrow> world \<Rightarrow> int \<times> world" where "Q = (\<lambda>pg w.
      let (err, w) = tegra_pmc_powergate_reset_assert E pg w
      in if err \<noteq> 0 then (err, w) else R pg w)"
  define P :: "tegra_powergate \<Rightarrow> world \<Rightarrow> int \<times> world" where "P = (\<lambda>pg w.
      let (err, w) =
            (if \<not> is_legacy_powergate soc then
               (let (err, w) = tegra_pmc_powergate_enable_clocks E pg w in
                if err \<noteq> 0 then (err, w) else
                let w = udelay 10 w;
                    (err, w) = tegra_pmc_powergate_mc_flush E pg w
                in if err \<noteq> 0 then (err, w) else (0, udelay 10 w))
             else (0, w))
      in if err \<noteq> 0 then (err, w) else Q pg w)"
  define tR where "tR = (settle_delay, never) # (if \<not> is_legacy_powergate soc
        then [(disable_clocks_step, never), (settle_delay, never)] else [])
        @ [(power_supply_off E, nonzero)]"
  define tQ where "tQ = (on_world (tegra_pmc_powergate_reset_assert E), nonzero) # tR"
  define tF where "tF = (on_world (tegra_pmc_powergate_mc_flush E), nonzero)
        # (settle_delay, never) # tQ"
  define drop_pg :: "int \<times> tegra_powergate \<times> world \<Rightarrow> int \<times> world"
    where "drop_pg = (\<lambda>(r, pg', w'). (r, w'))"
  have code: "tegra_pmc_powergate_power_off E soc pg0 w0 = P pg0 w0"
    unfolding tegra_pmc_powergate_power_off_def P_def Q_def R_def using allowed
    by (simp only: if_False)
  have steps: "power_off_steps E soc =
      (if \<not> is_legacy_powergate soc
       then (on_world (tegra_pmc_powergate_enable_clocks E), nonzero) # (settle_delay, never) # tF
       else tQ)"
    by (simp add: power_off_steps_def tF_def tQ_def tR_def)
  have off: "power_supply_off E pg0 w =
      (case (if vdd pg0 \<noteq> NULL then call_int E regulator_disable (vdd pg0) w
             else tegra_pmc_powergate_set E pg0 False w) of (r, w') \<Rightarrow> (r, pg0, w'))" for w
    using held
    by (cases "vdd pg0") (auto simp: regulator_held_def power_supply_off_def on_world_def
          split: if_splits)
  have r: "R pg0 w = drop_pg (run_steps tR pg0 w)" for w
  proof -
    let ?w = "if \<not> is_legacy_powergate soc
               then udelay 10 (tegra_pmc_powergate_disable_clocks pg0 (udelay 10 w))
               else udelay 10 w"
    obtain e w1 where x: "(if vdd pg0 \<noteq> NULL then call_int E regulator_disable (vdd pg0) ?w
             else tegra_pmc_powergate_set E pg0 False ?w) = (e, w1)"
      by (cases "if vdd pg0 \<noteq> NULL then call_int E regulator_disable (vdd pg0) ?w
             else tegra_pmc_powergate_set E pg0 False ?w")
    have "R pg0 w = (e, w1)"
      using x by (cases "is_legacy_powergate soc") (auto simp: R_def Let_def)
    moreover have "run_steps tR pg0 w = (e, pg0, w1)"
      using x off[of ?w]
      by (cases "is_legacy_powergate soc"; cases "e = 0")
         (simp_all add: tR_def settle_delay_def disable_clocks_step_def nonzero_def)
    ultimately show ?thesis by (simp add: drop_pg_def)
  qed
  have q: "Q pg0 w = drop_pg (run_steps tQ pg0 w)" for w
  proof -
    obtain e w1 where x: "tegra_pmc_powergate_reset_assert E pg0 w = (e, w1)"
      by (cases "tegra_pmc_powergate_reset_assert E pg0 w")
    show ?thesis
      using x r[of w1]
      by (cases "e = 0") (simp_all add: Q_def tQ_def on_world_def nonzero_def drop_pg_def)
  qed
  have f: "(let w = udelay 10 w;
                (err, w) = tegra_pmc_powergate_mc_flush E pg0 w
            in if err \<noteq> 0 then (err, w) else Q pg0 (udelay 10 w))
           = drop_pg (run_steps ((settle_delay, never) # tF) pg0 w)" for w
  proof -
    obtain e w1 where x: "tegra_pmc_powergate_mc_flush E pg0 (udelay 10 w) = (e, w1)"
      by (cases "tegra_pmc_powergate_mc_flush E pg0 (udelay 10 w)")
    show ?thesis
      using x q[of "udelay 10 w1"]
      by (cases "e = 0")
         (simp_all add: tF_def on_world_def nonzero_def drop_pg_def settle_delay_def Let_def)
  qed
  have p: "P pg0 w0 = drop_pg (run_steps (power_off_steps E soc) pg0 w0)"
  proof (cases "is_legacy_powergate soc")
    case True
    then show ?thesis using q[of w0] by (simp add: P_def steps)
  next
    case False
    obtain e w1 where x: "tegra_pmc_powergate_enable_clocks E pg0 w0 = (e, w1)"
      by (cases "tegra_pmc_powergate_enable_clocks E pg0 w0")
    show ?thesis
    proof (cases "e = 0")
      case e1: False
      with False x show ?thesis
        by (simp add: P_def steps on_world_def nonzero_def drop_pg_def)
    next
      case e0: True
      obtain e2 w2 where y: "tegra_pmc_powergate_mc_flush E pg0 (udelay 10 w1) = (e2, w2)"
        by (cases "tegra_pmc_powergate_mc_flush E pg0 (udelay 10 w1)")
      have l: "P pg0 w0 = (if e2 \<noteq> 0 then (e2, w2) else Q pg0 (udelay 10 w2))"
        using False x e0 y by (cases "e2 = 0") (simp_all add: P_def Let_def)
      have l': "(if e2 \<noteq> 0 then (e2, w2) else Q pg0 (udelay 10 w2))
           = drop_pg (run_steps ((settle_delay, never) # tF) pg0 w1)"
        using f[of w1] y by (simp only: Let_def prod.case)
      have r': "run_steps (power_off_steps E soc) pg0 w0
           = run_steps ((settle_delay, never) # tF) pg0 w1"
        using False x e0 by (simp add: steps on_world_def nonzero_def)
      show ?thesis unfolding l l' r' ..
    qed
  qed
  show ?thesis unfolding code p by (simp add: drop_pg_def)
qed

lemma power_off_success_trace:
  assumes ok: "tegra_pmc_powergate_power_off E soc pg w = (0, w')"
      and held: "regulator_held pg"
  shows "\<exists>off.
       (if is_vdd pg then off = [IntCall regulator_disable (vdd pg) 0]
        else (\<exists>w3. tegra_pmc_powergate_set E pg False w3 = (0, w') \<and> trace w' = trace w3 @ off))
     \<and> trace w' = trace w
        @ (if \<not> is_legacy_powergate soc
           then map (\<lambda>c. IntCall clk_prepare_enable c 0) (bundle_entries MAX_CLK_NUM (clk pg))
                @ [Udelay 10]
                @ map (\<lambda>p. IntCall tegra_mc_flush p 0) (bundle_entries MAX_SWGROUP_NUM (swgroup pg))
                @ [Udelay 10]
           else [])
        @ map (\<lambda>p. IntCall reset_control_assert p 0) (bundle_entries MAX_RESET_NUM (reset pg))
        @ [Udelay 10]
        @ (if \<not> is_legacy_powergate soc
           then map (VoidCall clk_disable_unprepare) (bundle_entries MAX_CLK_NUM (clk pg))
                @ [Udelay 10]
           else [])
        @ off"
proof -
  have allowed: "\<not> never_turn_off (pg_id pg)"
  proof
    assume "never_turn_off (pg_id pg)"
    with ok show False by (simp add: tegra_pmc_powergate_power_off_def EINVAL_def)
  qed
  let ?e = "[(on_world (tegra_pmc_powergate_enable_clocks E), nonzero), (settle_delay, never)]"
  let ?f = "[(on_world (tegra_pmc_powergate_mc_flush E), nonzero), (settle_delay, never)]"
  let ?s1 = "if \<not> is_legacy_powergate soc then ?e @ ?f else []"
  let ?s2 = "[(on_world (tegra_pmc_powergate_reset_assert E), nonzero), (settle_delay, never)]"
  let ?s3 = "if \<not> is_legacy_powergate soc
        then [(disable_clocks_step, never), (settle_delay, never)] else []"
  let ?s4 = "[(power_supply_off E, nonzero)]"
  have st: "power_off_steps E soc = ?s1 @ ?s2 @ ?s3 @ ?s4"
    by (simp add: power_off_steps_def)
  obtain pg' where run: "run_steps (?s1 @ ?s2 @ ?s3 @ ?s4) pg w = (0, pg', w')"
    using ok unfolding power_off_refines_steps[OF allowed held] st
    by (auto split: prod.splits)
  have c1: "\<forall>(s, f)\<in>set ?s1. \<forall>r. f r \<longrightarrow> r \<noteq> 0" by (auto simp: nonzero_def)
  have c3: "\<forall>(s, f)\<in>set ?s3. \<forall>r. f r \<longrightarrow> r \<noteq> 0" by (auto simp: nonzero_def)
  from run_steps_append_success[OF run c1] obtain p1 w1 where
    s1: "run_steps ?s1 pg w = (0, p1, w1)"
    and r1: "run_steps (?s2 @ ?s3 @ ?s4) p1 w1 = (0, pg', w')" by blast
  from run_steps_append_success[OF r1] obtain p2 w2 where
    s2: "run_steps ?s2 p1 w1 = (0, p2, w2)"
    and r2: "run_steps (?s3 @ ?s4) p2 w2 = (0, pg', w')" by auto
  from run_steps_append_success[OF r2 c3] obtain p3 w3 where
    s3: "run_steps ?s3 p2 w2 = (0, p3, w3)"
    and s4: "run_steps ?s4 p3 w3 = (0, pg', w')" by blast
  have x1: "p1 = pg \<and> trace w1 = trace w @
        (if \<not> is_legacy_powergate soc
           then map (\<lambda>c. IntCall clk_prepare_enable c 0) (bundle_entries MAX_CLK_NUM (clk pg))
                @ [Udelay 10]
                @ map (\<lambda>p. IntCall tegra_mc_flush p 0) (bundle_entries MAX_SWGROUP_NUM (swgroup pg))
                @ [Udelay 10]
           else [])"
  proof (cases "is_legacy_powergate soc")
    case True
    with s1 show ?thesis by simp
  next
    case False
    with s1 have "run_steps (?e @ ?f) pg w = (0, p1, w1)" by simp
    from run_steps_append_success[OF this] obtain pa wa where
      e: "run_steps ?e pg w = (0, pa, wa)" and f: "run_steps ?f pa wa = (0, p1, w1)" by auto
    from step_then_settle[OF e] obtain u where
      u: "tegra_pmc_powergate_enable_clocks E pg w = (0, u)" "pa = pg" "wa = udelay 10 u" by blast
    from step_then_settle[OF f] obtain u' where
      u': "tegra_pmc_powergate_mc_flush E pa wa = (0, u')" "p1 = pa" "w1 = udelay 10 u'" by blast
    from u(1) have t1: "trace u = trace w
        @ map (\<lambda>c. IntCall clk_prepare_enable c 0) (bundle_entries MAX_CLK_NUM (clk pg))"
      unfolding tegra_pmc_powergate_enable_clocks_def
      by (rule enable_clocks_loop_success[THEN conjunct1])
    from u'(1) have t2: "trace u' = trace wa
        @ map (\<lambda>p. IntCall tegra_mc_flush p 0) (bundle_entries MAX_SWGROUP_NUM (swgroup pg))"
      unfolding tegra_pmc_powergate_mc_flush_def u(2) by (rule call_each_success[THEN conjunct1])
    from False t1 t2 u u' show ?thesis by simp
  qed
  from step_then_settle[OF s2] obtain u where
    u: "tegra_pmc_powergate_reset_assert E p1 w1 = (0, u)" "p2 = p1" "w2 = udelay 10 u" by blast
  from u(1) have "trace u = trace w1
        @ map (\<lambda>p. IntCall reset_control_assert p 0) (bundle_entries MAX_RESET_NUM (reset p1))"
    unfolding tegra_pmc_powergate_reset_assert_def by (rule call_each_success[THEN conjunct1])
  with u have x2: "p2 = p1 \<and> trace w2 = trace w1
        @ map (\<lambda>p. IntCall reset_control_assert p 0) (bundle_entries MAX_RESET_NUM (reset p1))
        @ [Udelay 10]"
    by simp
  have x3: "p3 = p2 \<and> trace w3 = trace w2 @
        (if \<not> is_legacy_powergate soc
           then map (VoidCall clk_disable_unprepare) (bundle_entries MAX_CLK_NUM (clk p2))
                @ [Udelay 10]
           else [])"
    using s3
    by (auto simp: disable_clocks_step_def settle_delay_def
          tegra_pmc_powergate_disable_clocks_def clk_disable_all_trace split: if_splits)
  have p3: "p3 = pg" using x1 x2 x3 by simp
  obtain e4 p4 w4 where so: "power_supply_off E pg w3 = (e4, p4, w4)"
    by (cases "power_supply_off E pg w3") auto
  from s4 so p3 have e4: "e4 = 0" and w4: "w4 = w'"
    by (auto simp: nonzero_def split: if_splits)
  have "\<exists>off. (if is_vdd pg then off = [IntCall regulator_disable (vdd pg) 0]
        else (\<exists>w3. tegra_pmc_powergate_set E pg False w3 = (0, w') \<and> trace w' = trace w3 @ off))
       \<and> trace w' = trace w3 @ off"
  proof (cases "is_vdd pg")
    case True
    with so e4 w4 show ?thesis
      by (auto simp: power_supply_off_def on_world_def call_int_eq)
  next
    case False
    with so e4 w4 have ps: "tegra_pmc_powergate_set E pg False w3 = (0, w')"
      by (auto simp: power_supply_off_def on_world_def split: prod.splits)
    from powergate_set_extends[of E pg False w3] ps obtain off where
      "trace w' = trace w3 @ off" by auto
    with False ps show ?thesis by auto
  qed
  then obtain off where off:
    "if is_vdd pg then off = [IntCall regulator_disable (vdd pg) 0]
        else (\<exists>w3. tegra_pmc_powergate_set E pg False w3 = (0, w') \<and> trace w' = trace w3 @ off)"
    "trace w' = trace w3 @ off" by blast
  have "trace w' = trace w
        @ (if \<not> is_legacy_powergate soc
           then map (\<lambda>c. IntCall clk_prepare_enable c 0) (bundle_entries MAX_CLK_NUM (clk pg))
                @ [Udelay 10]
                @ map (\<lambda>p. IntCall tegra_mc_flush p 0) (bundle_entries MAX_SWGROUP_NUM (swgroup pg))
                @ [Udelay 10]
           else [])
        @ map (\<lambda>p. IntCall reset_control_assert p 0) (bundle_entries MAX_RESET_NUM (reset pg))
        @ [Udelay 10]
        @ (if \<not> is_legacy_powergate soc
           then map (VoidCall clk_disable_unprepare) (bundle_entries MAX_CLK_NUM (clk pg))
                @ [Udelay 10]
           else [])
        @ off"
    using off(2) x1 x2 x3 by simp
  with off(1) show ?thesis by blast
qed

lemma never_turn_off_iff:
  "never_turn_off ident \<longleftrightarrow>
     ident \<in> word_of_int ` {TEGRA_POWERGATE_CPU, TEGRA_POWERGATE_CPU1, TEGRA_POWERGATE_CPU2,
        TEGRA_POWERGATE_CPU3, TEGRA_POWERGATE_CPU0, TEGRA_POWERGATE_C0NC, TEGRA_POWERGATE_IRAM}"
  by (auto simp: never_turn_off_def)

text \<open>
  The claim C2 as stated fails in its step 4: for a domain on an external regulator
  that holds no regulator, power-off makes no call into the regulator framework and
  toggles the partition's power gate instead; and no settle delay follows the last
  step.
\<close>

theorem power_off_without_regulator_counterexample:
  "is_vdd unregulated_pg
   \<and> tegra_pmc_powergate_power_off gate_off_env tegra124_pmc_soc unregulated_pg boot
       = (0, power_off_unregulated_result)
   \<and> regulator_calls (trace power_off_unregulated_result) = []
   \<and> reg_writes (trace power_off_unregulated_result) = [RegWrite PMC 0x101 PWRGATE_TOGGLE]
   \<and> last (trace power_off_unregulated_result) \<noteq> Udelay 10"
  by (simp add: power_off_unregulated_example)
     (simp add: unregulated_pg_def power_off_unregulated_result_def regulator_calls_def
        reg_writes_def)

text \<open>
  C2, amended. For a domain outside the always-on set whose regulator pointer agrees
  with its external-regulator flag, power-off runs this fixed sequence of steps and
  returns the result of the first that fails (a result other than 0) at once: (1) on
  chips without legacy sequencing, the clocks are enabled in registration order, then
  a delay of 10 microseconds, then the flush is signalled to every client group in
  registration order, then the delay; (2) all resets are asserted in registration
  order, then the delay; (3) on chips without legacy sequencing, the clocks are
  disabled in registration order, then the delay; (4) the regulator is disabled for a
  domain on an external regulator, else the partition is switched off; nothing follows
  step 4. The second conjunct gives the whole trace of a successful call.
\<close>

theorem power_off_step_order:
  assumes "pg_id pg \<notin> word_of_int ` {TEGRA_POWERGATE_CPU, TEGRA_POWERGATE_CPU1,
             TEGRA_POWERGATE_CPU2, TEGRA_POWERGATE_CPU3, TEGRA_POWERGATE_CPU0,
             TEGRA_POWERGATE_C0NC, TEGRA_POWERGATE_IRAM}"
      and "regulator_held pg"
  shows "tegra_pmc_powergate_power_off E soc pg w =
           (case run_steps (power_off_steps E soc) pg w of (r, pg', w') \<Rightarrow> (r, w'))
   \<and> (\<forall>w'. tegra_pmc_powergate_power_off E soc pg w = (0, w') \<longrightarrow>
        (\<exists>off.
           (if is_vdd pg then off = [IntCall regulator_disable (vdd pg) 0]
            else (\<exists>w3. tegra_pmc_powergate_set E pg False w3 = (0, w')
                       \<and> trace w' = trace w3 @ off))
         \<and> trace w' = trace w
            @ (if \<not> is_legacy_powergate soc
               then map (\<lambda>c. IntCall clk_prepare_enable c 0)
                      (bundle_entries MAX_CLK_NUM (clk pg))
                    @ [Udelay 10]
                    @ map (\<lambda>p. IntCall tegra_mc_flush p 0)
                        (bundle_entries MAX_SWGROUP_NUM (swgroup pg))
                    @ [Udelay 10]
               else [])
            @ map (\<lambda>p. IntCall reset_control_assert p 0)
                (bundle_entries MAX_RESET_NUM (reset pg))
            @ [Udelay 10]
            @ (if \<not> is_legacy_powergate soc
               then map (VoidCall clk_disable_unprepare) (bundle_entries MAX_CLK_NUM (clk pg))
                    @ [Udelay 10]
               else [])
            @ off))"
proof (intro conjI allI impI)
  from assms(1) have "\<not> never_turn_off (pg_id pg)" unfolding never_turn_off_iff .
  from power_off_refines_steps[OF this assms(2)]
  show "tegra_pmc_powergate_power_off E soc pg w =
           (case run_steps (power_off_steps E soc) pg w of (r, pg', w') \<Rightarrow> (r, w'))" .
next
  fix w'
  assume "tegra_pmc_powergate_power_off E soc pg w = (0, w')"
  from power_off_success_trace[OF this assms(2)]
  show "\<exists>off.
           (if is_vdd pg then off = [IntCall regulator_disable (vdd pg) 0]
            else (\<exists>w3. tegra_pmc_powergate_set E pg False w3 = (0, w')
                       \<and> trace w' = trace w3 @ off))
         \<and> trace w' = trace w
            @ (if \<not> is_legacy_powergate soc
               then map (\<lambda>c. IntCall clk_prepare_enable c 0)
                      (bundle_entries MAX_CLK_NUM (clk pg))
                    @ [Udelay 10]
                    @ map (\<lambda>p. IntCall tegra_mc_flush p 0)
                        (bundle_entries MAX_SWGROUP_NUM (swgroup pg))
                    @ [Udelay 10]
               else [])
            @ map (\<lambda>p. IntCall reset_control_assert p 0)
                (bundle_entries MAX_RESET_NUM (reset pg))
            @ [Udelay 10]
            @ (if \<not> is_legacy_powergate soc
               then map (VoidCall clk_disable_unprepare) (bundle_entries MAX_CLK_NUM (clk pg))
                    @ [Udelay 10]
               else [])
            @ off" .
qed

theorem power_off_step_order_witness:
  "pg_id regulated_pg \<notin> word_of_int ` {TEGRA_POWERGATE_CPU, TEGRA_POWERGATE_CPU1,
             TEGRA_POWERGATE_CPU2, TEGRA_POWERGATE_CPU3, TEGRA_POWERGATE_CPU0,
             TEGRA_POWERGATE_C0NC, TEGRA_POWERGATE_IRAM}
   \<and> regulator_held regulated_pg
   \<and> (case run_steps (power_off_steps gate_off_env tegra124_pmc_soc) regulated_pg boot of
         (r, pg', w') \<Rightarrow> (r, w')) = (0, power_off_regulated_result)"
proof -
  have a: "pg_id regulated_pg \<notin> word_of_int ` {TEGRA_POWERGATE_CPU, TEGRA_POWERGATE_CPU1,
             TEGRA_POWERGATE_CPU2, TEGRA_POWERGATE_CPU3, TEGRA_POWERGATE_CPU0,
             TEGRA_POWERGATE_C0NC, TEGRA_POWERGATE_IRAM}"
    using not_never_turn_off_1 unfolding never_turn_off_iff
    by (simp add: regulated_pg_def example_pg_def)
  have b: "regulator_held regulated_pg"
    by (simp add: regulator_held_def regulated_pg_def)
  from power_off_step_order[OF a b, of gate_off_env tegra124_pmc_soc boot]
  have "tegra_pmc_powergate_power_off gate_off_env tegra124_pmc_soc regulated_pg boot =
           (case run_steps (power_off_steps gate_off_env tegra124_pmc_soc) regulated_pg boot of
              (r, pg', w') \<Rightarrow> (r, w'))"
    by blast
  with power_off_regulated_example a b show ?thesis by simp
qed

end
